theory Spec2Isabelle
  imports Complex_Main
begin

section \<open>JavaScript strings\<close>

text \<open>
  Strings are modelled as \<open>string\<close> (lists of 8-bit characters).  The String methods
  used by \<^verbatim>\<open>scripts/scripts.js\<close> that work on characters as such are written out below.
  \<^verbatim>\<open>trim()\<close> and \<^verbatim>\<open>toLowerCase()\<close> follow Unicode (white space and letters beyond ASCII): the
  script's calls of them are read from the environment, see the record \<open>env\<close>.  \<open>asciiTrim\<close> and
  \<open>asciiLowerCase\<close> are the two methods on ASCII text, for the example environments.
\<close>

definition startsWith :: "string \<Rightarrow> string \<Rightarrow> bool" where
  "startsWith s p = (take (length p) s = p)"

definition endsWith :: "string \<Rightarrow> string \<Rightarrow> bool" where
  "endsWith s p = (length p \<le> length s \<and> drop (length s - length p) s = p)"

fun includesStr :: "string \<Rightarrow> string \<Rightarrow> bool" where
  "includesStr [] p = (p = [])"
| "includesStr (c # cs) p = (startsWith (c # cs) p \<or> includesStr cs p)"

text \<open>
  \<^verbatim>\<open>s.replace(p, r)\<close> with a string pattern and a replacement without \<^verbatim>\<open>$\<close>: only the first
  occurrence is replaced.
\<close>

fun replace :: "string \<Rightarrow> string \<Rightarrow> string \<Rightarrow> string" where
  "replace [] p r = (if p = [] then r else [])"
| "replace (c # cs) p r =
     (if startsWith (c # cs) p then r @ drop (length p) (c # cs)
      else c # replace cs p r)"

text \<open>\<^verbatim>\<open>s.replaceAll(' ', '-')\<close>: a one-character pattern, every occurrence.\<close>

definition replaceAllChar :: "string \<Rightarrow> char \<Rightarrow> char \<Rightarrow> string" where
  "replaceAllChar s a b = map (\<lambda>c. if c = a then b else c) s"

text \<open>The ASCII white space of \<^verbatim>\<open>trim()\<close> and of the regular expression class \<^verbatim>\<open>\s\<close>.\<close>

definition isWhiteSpace :: "char \<Rightarrow> bool" where
  "isWhiteSpace c = (c \<in> set [CHR 0x09, CHR 0x0A, CHR 0x0B, CHR 0x0C, CHR 0x0D, CHR 0x20])"

text \<open>ASCII white space of the DOM standard, which separates class tokens.\<close>

definition isAsciiWhitespace :: "char \<Rightarrow> bool" where
  "isAsciiWhitespace c = (c \<in> set [CHR 0x09, CHR 0x0A, CHR 0x0C, CHR 0x0D, CHR 0x20])"

definition asciiTrim :: "string \<Rightarrow> string" where
  "asciiTrim s = rev (dropWhile isWhiteSpace (rev (dropWhile isWhiteSpace s)))"

definition lowerChar :: "char \<Rightarrow> char" where
  "lowerChar c =
     (case map_of (zip ''ABCDEFGHIJKLMNOPQRSTUVWXYZ'' ''abcdefghijklmnopqrstuvwxyz'') c of
        Some d \<Rightarrow> d
      | None \<Rightarrow> c)"

definition upperChar :: "char \<Rightarrow> char" where
  "upperChar c =
     (case map_of (zip ''abcdefghijklmnopqrstuvwxyz'' ''ABCDEFGHIJKLMNOPQRSTUVWXYZ'') c of
        Some d \<Rightarrow> d
      | None \<Rightarrow> c)"

definition asciiLowerCase :: "string \<Rightarrow> string" where
  "asciiLowerCase s = map lowerChar s"

definition toUpperCase :: "string \<Rightarrow> string" where
  "toUpperCase s = map upperChar s"

text \<open>
  \<open>splitWhere p cur s\<close> cuts \<open>s\<close> at every character satisfying \<open>p\<close>; \<open>cur\<close> is the piece
  being read.  Empty pieces are kept, as \<^verbatim>\<open>split\<close> keeps them.
\<close>

fun splitWhere :: "(char \<Rightarrow> bool) \<Rightarrow> string \<Rightarrow> string \<Rightarrow> string list" where
  "splitWhere p cur [] = [cur]"
| "splitWhere p cur (c # cs) =
     (if p c then cur # splitWhere p [] cs else splitWhere p (cur @ [c]) cs)"

text \<open>\<^verbatim>\<open>s.split(sep)\<close> for a non-empty separator string.\<close>

fun splitOn :: "string \<Rightarrow> string \<Rightarrow> string \<Rightarrow> string list" where
  "splitOn sep cur [] = [cur]"
| "splitOn sep cur (c # cs) =
     (if sep \<noteq> [] \<and> startsWith (c # cs) sep
      then cur # splitOn sep [] (drop (length sep) (c # cs))
      else splitOn sep (cur @ [c]) cs)"

definition splitStr :: "string \<Rightarrow> string \<Rightarrow> string list" where
  "splitStr s sep = splitOn sep [] s"

fun joinWith :: "string \<Rightarrow> string list \<Rightarrow> string" where
  "joinWith sep [] = []"
| "joinWith sep [x] = x"
| "joinWith sep (x # y # ys) = x @ sep @ joinWith sep (y # ys)"

section \<open>The document tree\<close>

text \<open>
  An element carries the properties the script reads or writes: its tag name (upper
  case, as \<^verbatim>\<open>tagName\<close> reports it for HTML), the \<^verbatim>\<open>class\<close> attribute as one string, the
  inline \<^verbatim>\<open>style.background\<close>, the \<^verbatim>\<open>dataset\<close> and the remaining reflected properties
  (\<^verbatim>\<open>src\<close>, \<^verbatim>\<open>alt\<close>, ...) as an association list.  A node is a text node or an element
  with its child nodes in document order.
\<close>

record attrs =
  tagName :: string
  className :: string
  styleBackground :: string
  dataset :: "(string \<times> string) list"
  props :: "(string \<times> string) list"

datatype node = TextNode string | Element attrs "node list"

fun isElement :: "node \<Rightarrow> bool" where
  "isElement (Element a cs) = True"
| "isElement (TextNode t) = False"

fun attrsOf :: "node \<Rightarrow> attrs option" where
  "attrsOf (Element a cs) = Some a"
| "attrsOf (TextNode t) = None"

fun childNodes :: "node \<Rightarrow> node list" where
  "childNodes (Element a cs) = cs"
| "childNodes (TextNode t) = []"

text \<open>\<^verbatim>\<open>el.children\<close> and \<^verbatim>\<open>el.querySelectorAll(':scope > *')\<close>: the element children.\<close>

definition children :: "node \<Rightarrow> node list" where
  "children n = filter isElement (childNodes n)"

fun nodeTag :: "node \<Rightarrow> string" where
  "nodeTag (Element a cs) = tagName a"
| "nodeTag (TextNode t) = []"

fun nodeClass :: "node \<Rightarrow> string" where
  "nodeClass (Element a cs) = className a"
| "nodeClass (TextNode t) = []"

fun setClassName :: "string \<Rightarrow> node \<Rightarrow> node" where
  "setClassName c (Element a cs) = Element (a\<lparr>className := c\<rparr>) cs"
| "setClassName c (TextNode t) = TextNode t"

text \<open>\<^verbatim>\<open>parent.append(child)\<close>, seen from the parent.\<close>

fun appendNode :: "node \<Rightarrow> node \<Rightarrow> node" where
  "appendNode (Element a cs) child = Element a (cs @ [child])"
| "appendNode (TextNode t) child = TextNode t"

text \<open>\<^verbatim>\<open>parent.prepend(child)\<close>, seen from the parent.\<close>

fun prependNode :: "node \<Rightarrow> node \<Rightarrow> node" where
  "prependNode (Element a cs) child = Element a (child # cs)"
| "prependNode (TextNode t) child = TextNode t"

definition createElement :: "string \<Rightarrow> node" where
  "createElement name =
     Element \<lparr>tagName = toUpperCase name, className = [], styleBackground = [],
              dataset = [], props = []\<rparr> []"

subsection \<open>Class lists\<close>

text \<open>
  \<^verbatim>\<open>classList\<close> is the ordered set of tokens of the \<^verbatim>\<open>class\<close> attribute: the attribute is
  cut at ASCII white space, empty pieces are dropped and a repeated token counts once,
  at its first position.
\<close>

fun orderedSet :: "string list \<Rightarrow> string list" where
  "orderedSet [] = []"
| "orderedSet (t # ts) = t # orderedSet (filter (\<lambda>u. u \<noteq> t) ts)"

definition tokens :: "string \<Rightarrow> string list" where
  "tokens c = orderedSet (filter (\<lambda>t. t \<noteq> []) (splitWhere isAsciiWhitespace [] c))"

definition classList :: "node \<Rightarrow> string list" where
  "classList n = tokens (nodeClass n)"

definition contains :: "node \<Rightarrow> string \<Rightarrow> bool" where
  "contains n t = (t \<in> set (classList n))"

section \<open>The environment\<close>

text \<open>
  What the JavaScript engine, the browser and the part of the repository outside
  \<^verbatim>\<open>scripts/scripts.js\<close> compute.  \<open>trim\<close> and \<open>toLowerCase\<close> are the String methods of these
  names.  \<open>cssBackground v\<close> is what \<^verbatim>\<open>style.background\<close> reads after the assignment
  \<^verbatim>\<open>style.background = v\<close> of a non-empty string: the serialization of \<open>v\<close> when the browser
  accepts \<open>v\<close> as a value of the property, and \<open>None\<close> when it rejects \<open>v\<close>, and then the
  declaration stays as it was.  \<open>validAttributeName\<close> is the test of the attribute name in
  the setter of \<^verbatim>\<open>dataset\<close>.  \<open>computedBackground doc p\<close> is \<^verbatim>\<open>getComputedStyle(e).background\<close>
  for the element \<^verbatim>\<open>e\<close> at path \<open>p\<close> of the document \<open>doc\<close> (a path is the list of the indices
  into \<^verbatim>\<open>childNodes\<close> on the way down from the root); \<open>toCamelCase\<close> is the function imported
  from \<^verbatim>\<open>aem.js\<close>; \<open>urlPathname src\<close> is \<^verbatim>\<open>new URL(src, window.location.href).pathname\<close>, \<open>None\<close>
  when the constructor throws.
\<close>

record env =
  trim :: "string \<Rightarrow> string"
  toLowerCase :: "string \<Rightarrow> string"
  cssBackground :: "string \<Rightarrow> string option"
  validAttributeName :: "string \<Rightarrow> bool"
  computedBackground :: "node \<Rightarrow> nat list \<Rightarrow> string"
  toCamelCase :: "string \<Rightarrow> string"
  urlPathname :: "string \<Rightarrow> string option"

subsection \<open>Parts of the example environments\<close>

definition isLowerAlpha :: "char \<Rightarrow> bool" where
  "isLowerAlpha c = (c \<in> set ''abcdefghijklmnopqrstuvwxyz'')"

definition isUpperAlpha :: "char \<Rightarrow> bool" where
  "isUpperAlpha c = (c \<in> set ''ABCDEFGHIJKLMNOPQRSTUVWXYZ'')"

definition isDigit :: "char \<Rightarrow> bool" where
  "isDigit c = (c \<in> set ''0123456789'')"

text \<open>
  The values the examples assign to \<^verbatim>\<open>style.background\<close>, as browsers read them back: a
  \<^verbatim>\<open>var(...)\<close> reference as it was written, \<^verbatim>\<open>#0a0a0a\<close> as \<^verbatim>\<open>rgb(10, 10, 10)\<close>.  The example
  environments reject every other string, as a browser rejects \<^verbatim>\<open>banana\<close>.
\<close>

definition exampleCss :: "string \<Rightarrow> string option" where
  "exampleCss v =
     (if startsWith v ''var(--'' \<and> endsWith v '')'' then Some v
      else map_of [(''#0a0a0a'', ''rgb(10, 10, 10)'')] v)"

text \<open>
  Attribute names of lower-case letters, digits, hyphens, underscores and full stops
  after a first letter: browsers accept them.  A name with a space is rejected, here as
  in a browser.
\<close>

definition exampleName :: "string \<Rightarrow> bool" where
  "exampleName s =
     (s \<noteq> [] \<and> isLowerAlpha (hd s) \<and>
      list_all (\<lambda>c. isLowerAlpha c \<or> isDigit c \<or> c \<in> set ''-_.'') s)"

text \<open>
  \<^verbatim>\<open>new URL(src, window.location.href).pathname\<close> for the image URLs of the examples: \<^verbatim>\<open>https\<close>
  URLs on the host \<^verbatim>\<open>example.com\<close> with a path, without dot segments or characters that the
  URL standard would escape.  The example environments hold no other image URL and answer
  \<open>None\<close> for every other string.
\<close>

definition examplePathname :: "string \<Rightarrow> string option" where
  "examplePathname src =
     (if startsWith src ''https://example.com/''
      then Some (takeWhile (\<lambda>c. c \<noteq> CHR ''?'' \<and> c \<noteq> CHR ''#'') (drop 19 src))
      else None)"

text \<open>
  Modelled from the spec: \<^verbatim>\<open>toCamelCase\<close> of \<^verbatim>\<open>aem.js\<close> is not among the sources; the
  specification says that the attribute name is camel-cased from the key.  The example
  environments lower-case the key, turn every run of characters other than letters and
  digits into one hyphen, drop a hyphen at either end, and replace a hyphen before a
  letter by the upper-case letter.
\<close>

fun squeeze :: "string \<Rightarrow> string" where
  "squeeze (c # d # cs) =
     (if c = CHR ''-'' \<and> d = CHR ''-'' then squeeze (d # cs) else c # squeeze (d # cs))"
| "squeeze cs = cs"

definition toClassName :: "string \<Rightarrow> string" where
  "toClassName name =
     (let hyphened = squeeze (map (\<lambda>c. if isLowerAlpha c \<or> isDigit c then c else CHR ''-'')
                                (asciiLowerCase name));
          strip = (\<lambda>s. if s \<noteq> [] \<and> hd s = CHR ''-'' then tl s else s)
      in rev (strip (rev (strip hyphened))))"

fun camel :: "string \<Rightarrow> string" where
  "camel (c # d # cs) =
     (if c = CHR ''-'' \<and> isLowerAlpha d then upperChar d # camel cs else c # camel (d # cs))"
| "camel cs = cs"

definition camelCase :: "string \<Rightarrow> string" where
  "camelCase name = camel (toClassName name)"

section \<open>Child Grouper\<close>

text \<open>
  \<^verbatim>\<open>groupChildren(section)\<close>.  The wrappers are new \<^verbatim>\<open>div\<close> elements; \<^verbatim>\<open>append\<close> moves a
  child out of the section into its wrapper.  The loop keeps \<^verbatim>\<open>groups\<close> and
  \<^verbatim>\<open>currentGroup\<close>; \<^verbatim>\<open>currentGroup\<close> is \<^verbatim>\<open>null\<close> before the first push and the last element
  of \<^verbatim>\<open>groups\<close> afterwards, so the model reads it from \<^verbatim>\<open>groups\<close>.
\<close>

definition isDiv :: "node \<Rightarrow> bool" where
  "isDiv child = (nodeTag child = ''DIV'')"

text \<open>The test under \<^verbatim>\<open>children.some\<close>: a \<^verbatim>\<open>DIV\<close> whose \<^verbatim>\<open>className\<close> is a non-empty string.\<close>

definition isBlock :: "node \<Rightarrow> bool" where
  "isBlock child = (nodeTag child = ''DIV'' \<and> nodeClass child \<noteq> [])"

text \<open>
  The classification of the specification: a \<^verbatim>\<open>DIV\<close> carrying at least one class name.  It
  differs from \<open>isBlock\<close> on a \<^verbatim>\<open>DIV\<close> whose class attribute is a non-empty string without a class
  name in it (white space only), which \<open>blankClass\<close> singles out.
\<close>

definition blockLike :: "node \<Rightarrow> bool" where
  "blockLike child = (nodeTag child = ''DIV'' \<and> classList child \<noteq> [])"

definition blankClass :: "node \<Rightarrow> bool" where
  "blankClass child = (nodeTag child = ''DIV'' \<and> nodeClass child \<noteq> [] \<and> classList child = [])"

definition newGroup :: "bool \<Rightarrow> node" where
  "newGroup d =
     setClassName (if d then ''block-content'' else ''default-content'') (createElement ''div'')"

fun groupLoop :: "node list \<Rightarrow> node list \<Rightarrow> node list" where
  "groupLoop groups [] = groups"
| "groupLoop groups (child # rest) =
     (if groups = [] \<or> contains (last groups) ''block-content'' \<noteq> isDiv child
      then groupLoop (groups @ [appendNode (newGroup (isDiv child)) child]) rest
      else groupLoop (butlast groups @ [appendNode (last groups) child]) rest)"

text \<open>The children that take part: element children without the class \<^verbatim>\<open>section-metadata\<close>.\<close>

definition groupedChildren :: "node \<Rightarrow> node list" where
  "groupedChildren section =
     filter (\<lambda>child. \<not> contains child ''section-metadata'') (children section)"

definition groupChildren :: "node \<Rightarrow> node list" where
  "groupChildren section =
     (let children = groupedChildren section in
      if children = [] then []
      else if \<not> list_ex isBlock children
      then [foldl appendNode (newGroup False) children]
      else groupLoop [] children)"

text \<open>
  What is left in the section once the grouped children have moved into their wrappers:
  text nodes and \<^verbatim>\<open>section-metadata\<close> elements.
\<close>

definition afterGrouping :: "node \<Rightarrow> node list" where
  "afterGrouping section =
     filter (\<lambda>n. \<not> isElement n \<or> contains n ''section-metadata'') (childNodes section)"

text \<open>
  The number of places where two neighbours of a list of classifications differ.
\<close>

fun transitions :: "bool list \<Rightarrow> nat" where
  "transitions [] = 0"
| "transitions [x] = 0"
| "transitions (x # y # ys) = (if x \<noteq> y then 1 else 0) + transitions (y # ys)"

text \<open>
  A wrapper is homogeneous when it is a non-empty \<^verbatim>\<open>div\<close> whose class is \<^verbatim>\<open>block-content\<close> or
  \<^verbatim>\<open>default-content\<close> and says which kind each of its children has.
\<close>

definition homogeneous :: "(node \<Rightarrow> bool) \<Rightarrow> node \<Rightarrow> bool" where
  "homogeneous kind g =
     (nodeTag g = ''DIV'' \<and> childNodes g \<noteq> [] \<and>
      (nodeClass g = ''block-content'' \<or> nodeClass g = ''default-content'') \<and>
      list_all (\<lambda>c. kind c = (nodeClass g = ''block-content'')) (childNodes g))"

text \<open>An element with a tag name, a class attribute and children, for examples.\<close>

definition elem :: "string \<Rightarrow> string \<Rightarrow> node list \<Rightarrow> node" where
  "elem t c cs =
     Element \<lparr>tagName = t, className = c, styleBackground = [], dataset = [], props = []\<rparr> cs"

text \<open>Example sections.\<close>

definition heroSection :: node where
  "heroSection = elem ''DIV'' [] [elem ''DIV'' ''hero'' [], elem ''DIV'' [] []]"

definition mixedSection :: node where
  "mixedSection = elem ''DIV'' []
     [elem ''P'' [] [], TextNode ''x'', elem ''DIV'' ''hero'' [], elem ''DIV'' [] [],
      elem ''H2'' ''title'' [], elem ''DIV'' ''section-metadata'' [],
      elem ''DIV'' ''cards wide'' []]"

definition plainSection :: node where
  "plainSection = elem ''DIV'' []
     [elem ''H1'' [] [], elem ''DIV'' [] [], elem ''DIV'' ''section-metadata'' [],
      elem ''P'' ''lead'' []]"

definition metadataOnlySection :: node where
  "metadataOnlySection = elem ''DIV'' [] [elem ''DIV'' ''section-metadata'' []]"

definition blankSection :: node where
  "blankSection = elem ''DIV'' [] [elem ''P'' [] [], elem ''DIV'' '' '' []]"

subsection \<open>Wrappers\<close>

lemma tokens_block_content: "tokens ''block-content'' = [''block-content'']"
  by (simp add: tokens_def isAsciiWhitespace_def)

lemma tokens_default_content: "tokens ''default-content'' = [''default-content'']"
  by (simp add: tokens_def isAsciiWhitespace_def)

lemma nodeClass_newGroup:
  "nodeClass (newGroup d) = (if d then ''block-content'' else ''default-content'')"
  by (simp add: newGroup_def createElement_def)

lemma nodeTag_newGroup [simp]: "nodeTag (newGroup d) = ''DIV''"
  by (simp add: newGroup_def createElement_def toUpperCase_def upperChar_def)

lemma isElement_newGroup [simp]: "isElement (newGroup d)"
  by (simp add: newGroup_def createElement_def)

lemma childNodes_newGroup [simp]: "childNodes (newGroup d) = []"
  by (simp add: newGroup_def createElement_def)

lemma contains_newGroup [simp]: "contains (newGroup d) ''block-content'' = d"
  by (simp add: contains_def classList_def nodeClass_newGroup tokens_block_content
      tokens_default_content)

lemma nodeClass_appendNode [simp]: "nodeClass (appendNode g c) = nodeClass g"
  by (cases g) simp_all

lemma nodeTag_appendNode [simp]: "nodeTag (appendNode g c) = nodeTag g"
  by (cases g) simp_all

lemma isElement_appendNode [simp]: "isElement (appendNode g c) = isElement g"
  by (cases g) simp_all

lemma contains_appendNode [simp]: "contains (appendNode g c) t = contains g t"
  by (simp add: contains_def classList_def)

lemma childNodes_appendNode:
  "isElement g \<Longrightarrow> childNodes (appendNode g c) = childNodes g @ [c]"
  by (cases g) simp_all

lemma foldl_appendNode: "foldl appendNode (Element a cs) xs = Element a (cs @ xs)"
  by (induction xs arbitrary: cs) simp_all

lemma contains_wrapper_class:
  "nodeClass g = ''block-content'' \<or> nodeClass g = ''default-content'' \<Longrightarrow>
   contains g ''block-content'' = (nodeClass g = ''block-content'')"
  by (auto simp: contains_def classList_def tokens_block_content tokens_default_content)

lemma homogeneous_isElement: "homogeneous k g \<Longrightarrow> isElement g"
  by (cases g) (simp_all add: homogeneous_def)

lemma homogeneous_fresh: "homogeneous isDiv (appendNode (newGroup (isDiv c)) c)"
  by (simp add: homogeneous_def childNodes_appendNode nodeClass_newGroup)

lemma homogeneous_grow:
  assumes "homogeneous isDiv g" and "contains g ''block-content'' = isDiv c"
  shows "homogeneous isDiv (appendNode g c)"
proof -
  from assms(1) have el: "isElement g" by (rule homogeneous_isElement)
  from assms(1) have cl: "nodeClass g = ''block-content'' \<or> nodeClass g = ''default-content''"
    by (simp add: homogeneous_def)
  from contains_wrapper_class [OF cl] assms(2)
  have "isDiv c = (nodeClass g = ''block-content'')" by simp
  with assms(1) el show ?thesis
    by (simp add: homogeneous_def childNodes_appendNode)
qed

subsection \<open>The grouping loop\<close>

text \<open>The loop keeps every child, in order, behind the children already grouped.\<close>

lemma groupLoop_concat:
  "\<forall>g \<in> set gs. isElement g \<Longrightarrow>
   concat (map childNodes (groupLoop gs cs)) = concat (map childNodes gs) @ cs"
proof (induction cs arbitrary: gs)
  case Nil
  then show ?case by simp
next
  case (Cons c cs)
  show ?case
  proof (cases "gs = [] \<or> contains (last gs) ''block-content'' \<noteq> isDiv c")
    case True
    have "\<forall>g \<in> set (gs @ [appendNode (newGroup (isDiv c)) c]). isElement g"
      using Cons.prems by simp
    from Cons.IH [OF this] True show ?thesis
      by (simp add: childNodes_appendNode)
  next
    case False
    then have ne: "gs \<noteq> []" by simp
    then have el: "isElement (last gs)" using Cons.prems last_in_set by blast
    have bl: "\<forall>g \<in> set (butlast gs @ [appendNode (last gs) c]). isElement g"
      using Cons.prems el by (auto dest: in_set_butlastD)
    have "concat (map childNodes gs) =
          concat (map childNodes (butlast gs)) @ childNodes (last gs)"
    proof -
      have "concat (map childNodes (butlast gs @ [last gs])) =
            concat (map childNodes (butlast gs)) @ childNodes (last gs)" by simp
      with ne show ?thesis by simp
    qed
    with Cons.IH [OF bl] False el show ?thesis
      by (simp add: childNodes_appendNode)
  qed
qed

text \<open>Every change of kind against the current group opens one more group.\<close>

lemma groupLoop_length:
  "gs \<noteq> [] \<Longrightarrow>
   length (groupLoop gs cs) =
     length gs + transitions (contains (last gs) ''block-content'' # map isDiv cs)"
proof (induction cs arbitrary: gs)
  case Nil
  then show ?case by simp
next
  case (Cons c cs)
  show ?case
  proof (cases "contains (last gs) ''block-content'' \<noteq> isDiv c")
    case True
    have "gs @ [appendNode (newGroup (isDiv c)) c] \<noteq> []" by simp
    from Cons.IH [OF this] True show ?thesis by simp
  next
    case False
    have "butlast gs @ [appendNode (last gs) c] \<noteq> []" by simp
    from Cons.IH [OF this] False Cons.prems show ?thesis by simp
  qed
qed

lemma groupLoop_homogeneous:
  "list_all (homogeneous isDiv) gs \<Longrightarrow> list_all (homogeneous isDiv) (groupLoop gs cs)"
proof (induction cs arbitrary: gs)
  case Nil
  then show ?case by simp
next
  case (Cons c cs)
  show ?case
  proof (cases "gs = [] \<or> contains (last gs) ''block-content'' \<noteq> isDiv c")
    case True
    have "list_all (homogeneous isDiv) (gs @ [appendNode (newGroup (isDiv c)) c])"
      using Cons.prems homogeneous_fresh by simp
    from Cons.IH [OF this] True show ?thesis by simp
  next
    case False
    then have ne: "gs \<noteq> []" and same: "contains (last gs) ''block-content'' = isDiv c"
      by simp_all
    from ne Cons.prems have "homogeneous isDiv (last gs)"
      by (simp add: list_all_iff)
    from homogeneous_grow [OF this same] Cons.prems
    have "list_all (homogeneous isDiv) (butlast gs @ [appendNode (last gs) c])"
      by (auto simp: list_all_iff dest: in_set_butlastD)
    from Cons.IH [OF this] False show ?thesis by simp
  qed
qed

lemma groupLoop_from_empty:
  assumes "cs \<noteq> []"
  shows "length (groupLoop [] cs) = transitions (map isDiv cs) + 1"
    and "concat (map childNodes (groupLoop [] cs)) = cs"
    and "list_all (homogeneous isDiv) (groupLoop [] cs)"
proof -
  from assms obtain c rest where cs: "cs = c # rest" by (cases cs) auto
  have start: "groupLoop [] (c # rest) = groupLoop [appendNode (newGroup (isDiv c)) c] rest"
    by simp
  show "length (groupLoop [] cs) = transitions (map isDiv cs) + 1"
    unfolding cs start by (subst groupLoop_length) simp_all
  show "concat (map childNodes (groupLoop [] cs)) = cs"
    by (subst groupLoop_concat) simp_all
  show "list_all (homogeneous isDiv) (groupLoop [] cs)"
    by (rule groupLoop_homogeneous) simp
qed

subsection \<open>Claims about the Child Grouper\<close>

text \<open>
  What the loop computes.  When some grouped child is a \<^verbatim>\<open>DIV\<close> with a non-empty class
  attribute, the loop runs, and the kind it tracks is \<^verbatim>\<open>isDiv\<close>: the tag alone, with or without
  a class.  With that kind the number of groups is the number of transitions plus one, the
  groups' children concatenated are the grouped children in their order, and every group
  is a non-empty \<^verbatim>\<open>div\<close> wrapper whose class is \<^verbatim>\<open>block-content\<close> exactly when its children are
  \<^verbatim>\<open>DIV\<close>s (\<^verbatim>\<open>default-content\<close> otherwise).
\<close>

theorem groupChildren_groups:
  assumes "list_ex isBlock (groupedChildren section)"
  shows "length (groupChildren section) =
           transitions (map isDiv (groupedChildren section)) + 1 \<and>
         concat (map childNodes (groupChildren section)) = groupedChildren section \<and>
         list_all (homogeneous isDiv) (groupChildren section)"
proof -
  from assms have ne: "groupedChildren section \<noteq> []" by auto
  with assms have "groupChildren section = groupLoop [] (groupedChildren section)"
    by (simp add: groupChildren_def)
  with groupLoop_from_empty [OF ne] show ?thesis by simp
qed

text \<open>
  An instance: a paragraph, a text node, two \<^verbatim>\<open>DIV\<close>s, a heading, the metadata element and one
  more \<^verbatim>\<open>DIV\<close> give three transitions and four groups.
\<close>

theorem groupChildren_groups_witness:
  "list_ex isBlock (groupedChildren mixedSection) \<and>
   length (groupChildren mixedSection) = 3 + 1 \<and>
   concat (map childNodes (groupChildren mixedSection)) = groupedChildren mixedSection \<and>
   list_all (homogeneous isDiv) (groupChildren mixedSection)"
proof -
  have h: "list_ex isBlock (groupedChildren mixedSection)" by code_simp
  have t: "transitions (map isDiv (groupedChildren mixedSection)) = 3" by code_simp
  from groupChildren_groups [OF h] h t show ?thesis by simp
qed

text \<open>
  C1, at a section where the code departs from it.  The section holds a \<^verbatim>\<open>DIV\<close> with the class
  \<^verbatim>\<open>hero\<close> followed by a \<^verbatim>\<open>DIV\<close> without class.  With the classification of the claim and of
  the test \<^verbatim>\<open>hasBlocks\<close> (\<^verbatim>\<open>isBlock\<close>: a \<^verbatim>\<open>DIV\<close> carrying a class) the children are a block and
  a non-block: one transition, two groups.  The loop classifies by the tag alone and puts
  both children into one \<^verbatim>\<open>block-content\<close> group.
\<close>

theorem groupChildren_classless_div:
  "list_ex isBlock (groupedChildren heroSection) \<and>
   map isBlock (groupedChildren heroSection) = [True, False] \<and>
   transitions (map isBlock (groupedChildren heroSection)) + 1 = 2 \<and>
   groupChildren heroSection =
     [elem ''DIV'' ''block-content'' [elem ''DIV'' ''hero'' [], elem ''DIV'' [] []]] \<and>
   length (groupChildren heroSection) \<noteq>
     transitions (map isBlock (groupedChildren heroSection)) + 1"
  by code_simp

lemma tokens_Nil [simp]: "tokens [] = []"
  by (simp add: tokens_def)

lemma isBlock_iff: "isBlock child \<longleftrightarrow> blockLike child \<or> blankClass child"
proof -
  have "classList child \<noteq> [] \<longrightarrow> nodeClass child \<noteq> []"
    by (auto simp: classList_def)
  then show ?thesis
    unfolding isBlock_def blockLike_def blankClass_def by blast
qed

lemma list_ex_isBlock:
  "list_ex isBlock cs \<longleftrightarrow> list_ex blockLike cs \<or> list_ex blankClass cs"
  by (auto simp: list_ex_iff isBlock_iff)

text \<open>
  C2 as stated fails where a \<^verbatim>\<open>DIV\<close> has a class attribute of white space only.  The section
  holds a paragraph and \<^verbatim>\<open><div class=" ">\<close>.  The class list of that \<^verbatim>\<open>DIV\<close> is empty, so no child
  is block-like and the claim asks for one \<^verbatim>\<open>default-content\<close> wrapper with both children.  The
  code tests the attribute string, finds it non-empty and runs the loop: two wrappers, the
  second one a \<^verbatim>\<open>block-content\<close> wrapper.
\<close>

theorem groupChildren_blank_class_counterexample:
  "groupedChildren blankSection = [elem ''P'' [] [], elem ''DIV'' '' '' []] \<and>
   classList (elem ''DIV'' '' '' []) = [] \<and>
   \<not> list_ex blockLike (groupedChildren blankSection) \<and>
   groupChildren blankSection =
     [elem ''DIV'' ''default-content'' [elem ''P'' [] []],
      elem ''DIV'' ''block-content'' [elem ''DIV'' '' '' []]] \<and>
   groupChildren blankSection \<noteq>
     [elem ''DIV'' ''default-content'' (groupedChildren blankSection)]"
  by code_simp

text \<open>
  C2 (as amended).  When there are grouped children, none of them is block-like (a \<^verbatim>\<open>DIV\<close>
  carrying at least one class name) and none is a \<^verbatim>\<open>DIV\<close> whose class attribute is a non-empty
  string of white space, the result is exactly one \<^verbatim>\<open>default-content\<close> wrapper holding all of
  them in order; when there are no grouped children the result is empty.  A \<^verbatim>\<open>DIV\<close> whose class
  attribute is a non-empty string of white space counts as a block: with such a child the
  loop runs as it does with a block-like child.
\<close>

theorem groupChildren_no_blocks:
  "(groupedChildren section \<noteq> [] \<and> \<not> list_ex blockLike (groupedChildren section) \<and>
    \<not> list_ex blankClass (groupedChildren section) \<longrightarrow>
      groupChildren section = [elem ''DIV'' ''default-content'' (groupedChildren section)]) \<and>
   (groupedChildren section = [] \<longrightarrow> groupChildren section = []) \<and>
   (list_ex blockLike (groupedChildren section) \<or> list_ex blankClass (groupedChildren section)
      \<longrightarrow> groupChildren section = groupLoop [] (groupedChildren section))"
proof (intro conjI impI)
  assume "groupedChildren section \<noteq> [] \<and> \<not> list_ex blockLike (groupedChildren section) \<and>
    \<not> list_ex blankClass (groupedChildren section)"
  then show "groupChildren section = [elem ''DIV'' ''default-content'' (groupedChildren section)]"
    by (simp add: groupChildren_def list_ex_isBlock newGroup_def createElement_def
        foldl_appendNode elem_def toUpperCase_def upperChar_def)
next
  assume "groupedChildren section = []"
  then show "groupChildren section = []" by (simp add: groupChildren_def)
next
  assume "list_ex blockLike (groupedChildren section) \<or> list_ex blankClass (groupedChildren section)"
  then have b: "list_ex isBlock (groupedChildren section)" by (simp add: list_ex_isBlock)
  then have "groupedChildren section \<noteq> []" by auto
  with b show "groupChildren section = groupLoop [] (groupedChildren section)"
    by (simp add: groupChildren_def)
qed

text \<open>
  Witness for C2: a heading, a classless \<^verbatim>\<open>DIV\<close> and a classed paragraph beside the metadata
  element; a section holding only the metadata element; and the section with a paragraph
  and \<^verbatim>\<open><div class=" ">\<close>, where the loop runs.
\<close>

theorem groupChildren_no_blocks_witness:
  "groupChildren plainSection =
     [elem ''DIV'' ''default-content''
        [elem ''H1'' [] [], elem ''DIV'' [] [], elem ''P'' ''lead'' []]] \<and>
   groupChildren metadataOnlySection = [] \<and>
   list_ex blankClass (groupedChildren blankSection) \<and>
   groupChildren blankSection = groupLoop [] (groupedChildren blankSection)"
proof -
  have bc: "list_ex blankClass (groupedChildren blankSection)" by code_simp
  have k: "groupedChildren plainSection =
             [elem ''H1'' [] [], elem ''DIV'' [] [], elem ''P'' ''lead'' []]"
    by code_simp
  have e: "groupedChildren metadataOnlySection = []"
    by code_simp
  have nb: "\<not> list_ex blockLike [elem ''H1'' [] [], elem ''DIV'' [] [], elem ''P'' ''lead'' []]"
    by code_simp
  have nw: "\<not> list_ex blankClass [elem ''H1'' [] [], elem ''DIV'' [] [], elem ''P'' ''lead'' []]"
    by code_simp
  from groupChildren_no_blocks [of plainSection] groupChildren_no_blocks [of metadataOnlySection]
    groupChildren_no_blocks [of blankSection] k e nb nw bc
  show ?thesis by simp
qed

section \<open>Section metadata: parsing the table\<close>

text \<open>\<^verbatim>\<open>node.textContent\<close>: the text of all text nodes below the node, in document order.\<close>

fun textContent :: "node \<Rightarrow> string" where
  "textContent (TextNode t) = t"
| "textContent (Element a cs) = concat (map textContent cs)"

text \<open>
  A metadata entry \<^verbatim>\<open>{ content, text }\<close>.  The metadata object is a plain JavaScript object:
  an association list in insertion order, where assigning to a key that is present
  replaces its value in place.
\<close>

record entry =
  content :: node
  text' :: string

type_synonym metadata = "(string \<times> entry) list"

fun objSet :: "('k \<times> 'v) list \<Rightarrow> 'k \<Rightarrow> 'v \<Rightarrow> ('k \<times> 'v) list" where
  "objSet [] k v = [(k, v)]"
| "objSet ((k', v') # m) k v = (if k' = k then (k, v) # m else (k', v') # objSet m k v)"

definition objGet :: "('k \<times> 'v) list \<Rightarrow> 'k \<Rightarrow> 'v option" where
  "objGet m k = map_of m k"

text \<open>
  The reducer of \<^verbatim>\<open>getSectionMetadata\<close>.  Only element nodes have \<^verbatim>\<open>children\<close>; a row counts when
  it has two or more element children.  \<^verbatim>\<open>rowKey\<close> and \<^verbatim>\<open>rowValue\<close> are what the body computes
  from \<^verbatim>\<open>row.children[0]\<close> and \<^verbatim>\<open>row.children[1]\<close>, with \<^verbatim>\<open>trim\<close> and \<^verbatim>\<open>toLowerCase\<close> of the
  environment.
\<close>

definition rowKey :: "env \<Rightarrow> node \<Rightarrow> string" where
  "rowKey env row = toLowerCase env (trim env (textContent (children row ! 0)))"

definition rowValue :: "env \<Rightarrow> node \<Rightarrow> entry" where
  "rowValue env row =
     (let content = children row ! 1 in
      \<lparr>content = content, text' = toLowerCase env (trim env (textContent content))\<rparr>)"

definition metadataRow :: "env \<Rightarrow> metadata \<Rightarrow> node \<Rightarrow> metadata" where
  "metadataRow env rdx row =
     (if isElement row \<and> 2 \<le> length (children row)
      then (let key = rowKey env row
            in if key \<noteq> [] then objSet rdx key (rowValue env row) else rdx)
      else rdx)"

definition getSectionMetadata :: "env \<Rightarrow> node \<Rightarrow> metadata" where
  "getSectionMetadata env el = foldl (metadataRow env) [] (childNodes el)"

text \<open>
  The rows that define a key, and the entry of the last of them: the reading "the last
  row wins" of a table with a repeated key.
\<close>

definition definesKey :: "env \<Rightarrow> string \<Rightarrow> node \<Rightarrow> bool" where
  "definesKey env k row =
     (isElement row \<and> 2 \<le> length (children row) \<and> rowKey env row \<noteq> [] \<and> rowKey env row = k)"

definition lastOccurrence :: "env \<Rightarrow> node list \<Rightarrow> string \<Rightarrow> entry option" where
  "lastOccurrence env rows k =
     (case filter (definesKey env k) rows of
        [] \<Rightarrow> None
      | r # rs \<Rightarrow> Some (rowValue env (last (r # rs))))"

section \<open>Class list updates and positions in the tree\<close>

text \<open>
  \<^verbatim>\<open>classList.add\<close> and \<^verbatim>\<open>classList.remove\<close> first validate their arguments: an empty token
  raises \<^verbatim>\<open>SyntaxError\<close>, a token with ASCII white space raises \<^verbatim>\<open>InvalidCharacterError\<close>,
  and nothing is changed then.  Otherwise the \<^verbatim>\<open>class\<close> attribute becomes the tokens joined
  by single spaces.  \<^verbatim>\<open>TypeError\<close> is what the \<^verbatim>\<open>URL\<close> constructor raises.
\<close>

datatype error = SyntaxError | InvalidCharacterError | TypeError

fun validateTokens :: "string list \<Rightarrow> error option" where
  "validateTokens [] = None"
| "validateTokens (t # ts) =
     (if t = [] then Some SyntaxError
      else if list_ex isAsciiWhitespace t then Some InvalidCharacterError
      else validateTokens ts)"

definition validToken :: "string \<Rightarrow> bool" where
  "validToken t = (t \<noteq> [] \<and> \<not> list_ex isAsciiWhitespace t)"

definition addTokens :: "string list \<Rightarrow> node \<Rightarrow> node" where
  "addTokens ts n = setClassName (joinWith '' '' (orderedSet (classList n @ ts))) n"

definition removeTokens :: "string list \<Rightarrow> node \<Rightarrow> node" where
  "removeTokens ts n = setClassName (joinWith '' '' (filter (\<lambda>t. t \<notin> set ts) (classList n))) n"

definition classListAdd :: "string list \<Rightarrow> node \<Rightarrow> error + node" where
  "classListAdd ts n = (case validateTokens ts of Some e \<Rightarrow> Inl e | None \<Rightarrow> Inr (addTokens ts n))"

text \<open>
  An element of a document is named by its path from the root: the indices into
  \<^verbatim>\<open>childNodes\<close> on the way down.
\<close>

fun nodeAt :: "node \<Rightarrow> nat list \<Rightarrow> node option" where
  "nodeAt n [] = Some n"
| "nodeAt n (i # p) = (if i < length (childNodes n) then nodeAt (childNodes n ! i) p else None)"

fun updateAt :: "(node \<Rightarrow> node) \<Rightarrow> nat list \<Rightarrow> node \<Rightarrow> node" where
  "updateAt f [] n = f n"
| "updateAt f (i # p) (Element a cs) =
     Element a (if i < length cs then cs[i := updateAt f p (cs ! i)] else cs)"
| "updateAt f (i # p) (TextNode t) = TextNode t"

text \<open>\<^verbatim>\<open>node.remove()\<close>: the node leaves its parent; a node without a parent stays.\<close>

fun removeAt :: "nat list \<Rightarrow> node \<Rightarrow> node" where
  "removeAt [] n = n"
| "removeAt [i] (Element a cs) = Element a (take i cs @ drop (Suc i) cs)"
| "removeAt (i # j # p) (Element a cs) =
     Element a (if i < length cs then cs[i := removeAt (j # p) (cs ! i)] else cs)"
| "removeAt (i # p) (TextNode t) = TextNode t"

text \<open>
  \<^verbatim>\<open>el.closest('.name')\<close>: the element itself or its nearest ancestor carrying the class;
  \<^verbatim>\<open>null\<close> when there is none.
\<close>

definition ancestorsOrSelf :: "nat list \<Rightarrow> nat list list" where
  "ancestorsOrSelf p = map (\<lambda>k. take k p) (rev [0..<Suc (length p)])"

definition hasClassAt :: "node \<Rightarrow> string \<Rightarrow> nat list \<Rightarrow> bool" where
  "hasClassAt doc name p = (case nodeAt doc p of Some n \<Rightarrow> contains n name | None \<Rightarrow> False)"

definition closest :: "node \<Rightarrow> nat list \<Rightarrow> string \<Rightarrow> nat list option" where
  "closest doc el name = List.find (hasClassAt doc name) (ancestorsOrSelf el)"

text \<open>
  A fallible update of the element at a path: the exception leaves the document as
  it was.
\<close>

definition updateAtE :: "(node \<Rightarrow> error + node) \<Rightarrow> nat list \<Rightarrow> node \<Rightarrow> error + node" where
  "updateAtE f p doc =
     (case nodeAt doc p of
        None \<Rightarrow> Inr doc
      | Some n \<Rightarrow> (case f n of Inl e \<Rightarrow> Inl e | Inr n' \<Rightarrow> Inr (updateAt (\<lambda>_. n') p doc)))"

text \<open>The element children of a node, each changed by \<open>f\<close>; text nodes stay.\<close>

fun mapChildren :: "(node \<Rightarrow> node) \<Rightarrow> node \<Rightarrow> node" where
  "mapChildren f (Element a cs) = Element a (map (\<lambda>c. if isElement c then f c else c) cs)"
| "mapChildren f (TextNode t) = TextNode t"

section \<open>Color/Background Analyzer\<close>

definition digitValue :: "char \<Rightarrow> nat" where
  "digitValue c =
     (case map_of (zip ''0123456789'' [0, 1, 2, 3, 4, 5, 6, 7, 8, 9]) c of
        Some d \<Rightarrow> d
      | None \<Rightarrow> 0)"

text \<open>\<^verbatim>\<open>parseInt(s, 10)\<close> on a string of decimal digits.\<close>

definition parseInt :: "string \<Rightarrow> nat" where
  "parseInt s = foldl (\<lambda>n c. 10 * n + digitValue c) 0 s"

text \<open>
  The regular expression \<^verbatim>\<open>/rgb\((\d+),\s*(\d+),\s*(\d+)\)/\<close>.  \<open>digitsThen c s\<close> reads \<^verbatim>\<open>\d+\<close>
  followed by the character \<open>c\<close>; \<open>matchRgbAt\<close> matches at the start of a string and
  \<open>matchRgb\<close> takes the leftmost match.  The three results are the capture groups.
\<close>

definition digitsThen :: "char \<Rightarrow> string \<Rightarrow> (string \<times> string) option" where
  "digitsThen c s =
     (case dropWhile isDigit s of
        [] \<Rightarrow> None
      | x # rest \<Rightarrow> if takeWhile isDigit s \<noteq> [] \<and> x = c then Some (takeWhile isDigit s, rest)
                    else None)"

definition matchRgbAt :: "string \<Rightarrow> (string \<times> string \<times> string) option" where
  "matchRgbAt s =
     (if startsWith s ''rgb(''
      then (case digitsThen CHR '','' (drop 4 s) of
              None \<Rightarrow> None
            | Some (r, s1) \<Rightarrow>
               (case digitsThen CHR '','' (dropWhile isWhiteSpace s1) of
                  None \<Rightarrow> None
                | Some (g, s2) \<Rightarrow>
                   (case digitsThen CHR '')'' (dropWhile isWhiteSpace s2) of
                      None \<Rightarrow> None
                    | Some (b, s3) \<Rightarrow> Some (r, g, b))))
      else None)"

fun matchRgb :: "string \<Rightarrow> (string \<times> string \<times> string) option" where
  "matchRgb [] = None"
| "matchRgb (c # cs) =
     (case matchRgbAt (c # cs) of Some m \<Rightarrow> Some m | None \<Rightarrow> matchRgb cs)"

definition parseColor :: "env \<Rightarrow> node \<Rightarrow> nat list \<Rightarrow> (nat \<times> nat \<times> nat) option" where
  "parseColor env doc section =
     (let computedBg = computedBackground env doc section in
      case matchRgb computedBg of
        None \<Rightarrow> None
      | Some (r, g, b) \<Rightarrow> Some (parseInt r, parseInt g, parseInt b))"

text \<open>
  Numbers are real numbers here: the rounding of IEEE double arithmetic is not part of
  the model.  \<^verbatim>\<open>x ** 2.4\<close> is \<open>x powr 2.4\<close>.
\<close>

definition gamma :: "real \<Rightarrow> real" where
  "gamma c = (if c \<le> 0.03928 then c / 12.92 else ((c + 0.055) / 1.055) powr 2.4)"

definition getRelativeLuminance :: "nat \<times> nat \<times> nat \<Rightarrow> real" where
  "getRelativeLuminance rgb =
     (case rgb of (r, g, b) \<Rightarrow>
        (let rsRGB = real r / 255; gsRGB = real g / 255; bsRGB = real b / 255;
             rLinear = gamma rsRGB; gLinear = gamma gsRGB; bLinear = gamma bsRGB
         in 0.2126 * rLinear + 0.7152 * gLinear + 0.0722 * bLinear))"

definition getColorScheme :: "env \<Rightarrow> node \<Rightarrow> nat list \<Rightarrow> string option" where
  "getColorScheme env doc section =
     (case parseColor env doc section of
        None \<Rightarrow> None
      | Some rgb \<Rightarrow>
          Some (if getRelativeLuminance rgb > 0.5 then ''light-scheme'' else ''dark-scheme''))"

text \<open>
  \<^verbatim>\<open>setColorScheme(section)\<close>.  The tokens removed and added are literals that pass the
  validation of \<^verbatim>\<open>classList\<close>.
\<close>

definition applyScheme :: "string \<Rightarrow> node \<Rightarrow> node" where
  "applyScheme scheme el = addTokens [scheme] (removeTokens [''light-scheme'', ''dark-scheme''] el)"

definition setColorScheme :: "env \<Rightarrow> nat list \<Rightarrow> node \<Rightarrow> node" where
  "setColorScheme env section doc =
     (case getColorScheme env doc section of
        None \<Rightarrow> doc
      | Some scheme \<Rightarrow> updateAt (mapChildren (applyScheme scheme)) section doc)"

text \<open>
  The assignment \<^verbatim>\<open>section.style.background = v\<close>: the inline background reads the
  serialization of \<open>v\<close> afterwards, or what it read before when the browser rejects \<open>v\<close>.
\<close>

definition assignedBackground :: "env \<Rightarrow> string \<Rightarrow> string \<Rightarrow> string" where
  "assignedBackground env v previous =
     (case cssBackground env v of None \<Rightarrow> previous | Some serialized \<Rightarrow> serialized)"

fun setBackground :: "env \<Rightarrow> string \<Rightarrow> node \<Rightarrow> node" where
  "setBackground env v (Element a cs) =
     Element (a\<lparr>styleBackground := assignedBackground env v (styleBackground a)\<rparr>) cs"
| "setBackground env v (TextNode t) = TextNode t"

text \<open>\<^verbatim>\<open>handleBackground(background, section)\<close>.\<close>

definition backgroundValue :: "string \<Rightarrow> string" where
  "backgroundValue color =
     (if startsWith color ''color-token''
      then ''var('' @ replace color ''color-token'' ''--color'' @ '')''
      else color)"

definition handleBackground :: "env \<Rightarrow> entry \<Rightarrow> nat list \<Rightarrow> node \<Rightarrow> node" where
  "handleBackground env background section doc =
     (let color = text' background in
      if color \<noteq> []
      then setColorScheme env section
             (updateAt (setBackground env (backgroundValue color)) section doc)
      else doc)"

subsection \<open>What the regular expression accepts\<close>

text \<open>
  The language of the regular expression, stated without the matcher: \<open>rgbAt t (r, g, b)\<close>
  says that \<open>t\<close> begins with \<^verbatim>\<open>rgb(\<close>, digits \<open>r\<close>, a comma, white space, digits \<open>g\<close>, a comma,
  white space, digits \<open>b\<close> and \<^verbatim>\<open>)\<close>; \<open>rgbForm s\<close> says that \<open>s\<close> contains such a form.
\<close>

definition digitString :: "string \<Rightarrow> bool" where
  "digitString d = (d \<noteq> [] \<and> list_all isDigit d)"

definition rgbAt :: "string \<Rightarrow> string \<times> string \<times> string \<Rightarrow> bool" where
  "rgbAt t m =
     (case m of (r, g, b) \<Rightarrow>
        (\<exists>w1 w2 post.
           t = ''rgb('' @ r @ '','' @ w1 @ g @ '','' @ w2 @ b @ '')'' @ post \<and>
           digitString r \<and> digitString g \<and> digitString b \<and>
           list_all isWhiteSpace w1 \<and> list_all isWhiteSpace w2))"

definition rgbForm :: "string \<Rightarrow> bool" where
  "rgbForm s = (\<exists>pre t m. s = pre @ t \<and> rgbAt t m)"

text \<open>
  The luminance as the specification words it: a channel \<open>c\<close> in \<open>[0, 1]\<close> becomes
  \<open>c / 12.92\<close> when \<open>c \<le> 0.03928\<close> and \<open>((c + 0.055) / 1.055) ^ 2.4\<close> otherwise, and the
  luminance is \<open>0.2126 R + 0.7152 G + 0.0722 B\<close> of the three results.
\<close>

definition specLinear :: "real \<Rightarrow> real" where
  "specLinear c = (if c \<le> 0.03928 then c / 12.92 else ((c + 0.055) / 1.055) powr 2.4)"

definition specLuminance :: "nat \<Rightarrow> nat \<Rightarrow> nat \<Rightarrow> real" where
  "specLuminance r g b =
     0.2126 * specLinear (real r / 255) + 0.7152 * specLinear (real g / 255) +
     0.0722 * specLinear (real b / 255)"

subsection \<open>The matcher against the language\<close>

lemma startsWith_iff: "startsWith s p \<longleftrightarrow> (\<exists>rest. s = p @ rest)"
  unfolding startsWith_def
  by (metis append_eq_conv_conj append_take_drop_id)

lemma startsWith_append [simp]: "startsWith (p @ rest) p"
  by (simp add: startsWith_def)

lemma isDigit_not_space: "isDigit c \<Longrightarrow> \<not> isWhiteSpace c"
  by (auto simp: isDigit_def isWhiteSpace_def)

lemma comma_not_digit [simp]: "\<not> isDigit CHR '',''" "\<not> isDigit CHR '')''"
  by (simp_all add: isDigit_def)

lemma digitsThen_Some:
  "digitsThen c s = Some (d, rest) \<Longrightarrow> s = d @ c # rest \<and> digitString d"
proof -
  assume a: "digitsThen c s = Some (d, rest)"
  obtain x xs where dw: "dropWhile isDigit s = x # xs"
    using a by (cases "dropWhile isDigit s") (simp_all add: digitsThen_def)
  with a have d: "d = takeWhile isDigit s" and r: "rest = xs" and x: "x = c" and ne: "takeWhile isDigit s \<noteq> []"
    by (simp_all add: digitsThen_def split: if_splits)
  have "s = takeWhile isDigit s @ dropWhile isDigit s" by simp
  with dw d r x have "s = d @ c # rest" by simp
  moreover have "list_all isDigit d" unfolding d list_all_iff
    by (auto dest: set_takeWhileD)
  ultimately show ?thesis using ne d by (simp add: digitString_def)
qed

lemma digitsThen_intro:
  assumes "digitString d" and "\<not> isDigit c"
  shows "digitsThen c (d @ c # rest) = Some (d, rest)"
proof -
  from assms(1) have all: "\<forall>x \<in> set d. isDigit x" and ne: "d \<noteq> []"
    by (simp_all add: digitString_def list_all_iff)
  from all assms(2) have t: "takeWhile isDigit (d @ c # rest) = d"
    by (simp add: takeWhile_append2)
  from all assms(2) have dr: "dropWhile isDigit (d @ c # rest) = c # rest"
    by (simp add: dropWhile_append2)
  show ?thesis using ne by (simp add: digitsThen_def t dr)
qed

lemma dropWhile_space_digits:
  assumes "list_all isWhiteSpace w" and "digitString d"
  shows "dropWhile isWhiteSpace (w @ d @ rest) = d @ rest"
proof -
  from assms(2) obtain x xs where d: "d = x # xs" and x: "isDigit x"
    by (cases d) (simp_all add: digitString_def)
  from assms(1) have "\<forall>c \<in> set w. isWhiteSpace c" by (simp add: list_all_iff)
  then show ?thesis using isDigit_not_space [OF x]
    by (simp add: d dropWhile_append2)
qed

lemma matchRgbAt_complete:
  assumes "rgbAt t (r, g, b)"
  shows "matchRgbAt t = Some (r, g, b)"
proof -
  from assms obtain w1 w2 post where
    t: "t = ''rgb('' @ r @ '','' @ w1 @ g @ '','' @ w2 @ b @ '')'' @ post" and
    dr: "digitString r" and dg: "digitString g" and db: "digitString b" and
    w1: "list_all isWhiteSpace w1" and w2: "list_all isWhiteSpace w2"
    by (auto simp: rgbAt_def)
  have s: "startsWith t ''rgb(''" unfolding t by (rule startsWith_append)
  have d4: "drop 4 t = r @ CHR '','' # (w1 @ g @ CHR '','' # (w2 @ b @ CHR '')'' # post))"
    unfolding t by simp
  have 1: "digitsThen CHR '','' (drop 4 t) = Some (r, w1 @ g @ CHR '','' # (w2 @ b @ CHR '')'' # post))"
    unfolding d4 by (rule digitsThen_intro [OF dr]) simp
  have 2: "digitsThen CHR '','' (dropWhile isWhiteSpace (w1 @ g @ CHR '','' # (w2 @ b @ CHR '')'' # post)))
           = Some (g, w2 @ b @ CHR '')'' # post)"
    unfolding dropWhile_space_digits [OF w1 dg] by (rule digitsThen_intro [OF dg]) simp
  have 3: "digitsThen CHR '')'' (dropWhile isWhiteSpace (w2 @ b @ CHR '')'' # post)) = Some (b, post)"
    unfolding dropWhile_space_digits [OF w2 db] by (rule digitsThen_intro [OF db]) simp
  show ?thesis by (simp add: matchRgbAt_def s 1 2 3)
qed

lemma matchRgbAt_sound:
  assumes "matchRgbAt t = Some (r, g, b)"
  shows "rgbAt t (r, g, b)"
proof -
  from assms have s: "startsWith t ''rgb(''" by (simp add: matchRgbAt_def split: if_splits)
  then obtain rest0 where t0: "t = ''rgb('' @ rest0" by (auto simp: startsWith_iff)
  have "drop 4 t = rest0" unfolding t0 by simp
  with t0 have t: "t = ''rgb('' @ drop 4 t" by simp
  from assms s obtain s1 where 1: "digitsThen CHR '','' (drop 4 t) = Some (r, s1)"
    by (auto simp: matchRgbAt_def split: option.splits)
  from assms s 1 obtain s2 where 2: "digitsThen CHR '','' (dropWhile isWhiteSpace s1) = Some (g, s2)"
    by (auto simp: matchRgbAt_def split: option.splits)
  from assms s 1 2 obtain s3 where 3: "digitsThen CHR '')'' (dropWhile isWhiteSpace s2) = Some (b, s3)"
    by (auto simp: matchRgbAt_def split: option.splits)
  note a = digitsThen_Some [OF 1] and b = digitsThen_Some [OF 2] and c = digitsThen_Some [OF 3]
  define w1 where "w1 = takeWhile isWhiteSpace s1"
  define w2 where "w2 = takeWhile isWhiteSpace s2"
  have e0: "drop 4 t = r @ CHR '','' # s1" using a by simp
  have e1: "s1 = w1 @ dropWhile isWhiteSpace s1" by (simp add: w1_def)
  have e2: "s2 = w2 @ dropWhile isWhiteSpace s2" by (simp add: w2_def)
  have f1: "s1 = w1 @ g @ CHR '','' # s2" using e1 b by simp
  have f2: "s2 = w2 @ b @ CHR '')'' # s3" using e2 c by simp
  have "t = ''rgb('' @ (r @ CHR '','' # (w1 @ g @ CHR '','' # (w2 @ b @ CHR '')'' # s3)))"
    using t e0 f1 f2 by simp
  then have "t = ''rgb('' @ r @ '','' @ w1 @ g @ '','' @ w2 @ b @ '')'' @ s3"
    by simp
  moreover have "list_all isWhiteSpace w1" "list_all isWhiteSpace w2"
    by (auto simp: list_all_iff w1_def w2_def dest: set_takeWhileD)
  ultimately show ?thesis using a b c unfolding rgbAt_def by auto
qed

lemma matchRgbAt_iff: "matchRgbAt t = Some m \<longleftrightarrow> rgbAt t m"
  by (cases m) (auto intro: matchRgbAt_complete matchRgbAt_sound)

lemma matchRgb_Some:
  "matchRgb s = Some m \<longleftrightarrow>
     (\<exists>pre t. s = pre @ t \<and> matchRgbAt t = Some m \<and>
        (\<forall>pre' t'. s = pre' @ t' \<and> length pre' < length pre \<longrightarrow> matchRgbAt t' = None))"
proof (induction s)
  case Nil
  show ?case by (simp add: matchRgbAt_def startsWith_def)
next
  case (Cons c cs)
  show ?case
  proof (cases "matchRgbAt (c # cs)")
    case (Some m')
    have "(\<exists>pre t. c # cs = pre @ t \<and> matchRgbAt t = Some m \<and>
        (\<forall>pre' t'. c # cs = pre' @ t' \<and> length pre' < length pre \<longrightarrow> matchRgbAt t' = None)) \<longleftrightarrow> m' = m"
    proof
      assume "\<exists>pre t. c # cs = pre @ t \<and> matchRgbAt t = Some m \<and>
        (\<forall>pre' t'. c # cs = pre' @ t' \<and> length pre' < length pre \<longrightarrow> matchRgbAt t' = None)"
      then obtain pre t where e: "c # cs = pre @ t" and m: "matchRgbAt t = Some m"
        and least: "\<forall>pre' t'. c # cs = pre' @ t' \<and> length pre' < length pre \<longrightarrow> matchRgbAt t' = None"
        by blast
      have "pre = []"
      proof (rule ccontr)
        assume "pre \<noteq> []"
        then have "length [] < length pre" by simp
        with least have "matchRgbAt (c # cs) = None" by (metis append_Nil)
        with Some show False by simp
      qed
      with e m Some show "m' = m" by simp
    next
      assume "m' = m"
      with Some have "c # cs = [] @ (c # cs) \<and> matchRgbAt (c # cs) = Some m \<and>
        (\<forall>pre' t'. c # cs = pre' @ t' \<and> length pre' < length ([]::string) \<longrightarrow> matchRgbAt t' = None)"
        by simp
      then show "\<exists>pre t. c # cs = pre @ t \<and> matchRgbAt t = Some m \<and>
        (\<forall>pre' t'. c # cs = pre' @ t' \<and> length pre' < length pre \<longrightarrow> matchRgbAt t' = None)"
        by blast
    qed
    with Some show ?thesis by simp
  next
    case None
    have "(\<exists>pre t. c # cs = pre @ t \<and> matchRgbAt t = Some m \<and>
        (\<forall>pre' t'. c # cs = pre' @ t' \<and> length pre' < length pre \<longrightarrow> matchRgbAt t' = None)) \<longleftrightarrow>
          (\<exists>pre t. cs = pre @ t \<and> matchRgbAt t = Some m \<and>
        (\<forall>pre' t'. cs = pre' @ t' \<and> length pre' < length pre \<longrightarrow> matchRgbAt t' = None))"
      (is "?L \<longleftrightarrow> ?R")
    proof
      assume ?L
      then obtain pre t where e: "c # cs = pre @ t" and m: "matchRgbAt t = Some m"
        and least: "\<forall>pre' t'. c # cs = pre' @ t' \<and> length pre' < length pre \<longrightarrow> matchRgbAt t' = None"
        by blast
      from e m None obtain pre0 where p: "pre = c # pre0" and e0: "cs = pre0 @ t"
        by (cases pre) auto
      have "\<forall>pre' t'. cs = pre' @ t' \<and> length pre' < length pre0 \<longrightarrow> matchRgbAt t' = None"
      proof (intro allI impI)
        fix pre' t' assume "cs = pre' @ t' \<and> length pre' < length pre0"
        then have "c # cs = (c # pre') @ t' \<and> length (c # pre') < length pre" using p by simp
        with least show "matchRgbAt t' = None" by blast
      qed
      with e0 m show ?R by blast
    next
      assume ?R
      then obtain pre t where e: "cs = pre @ t" and m: "matchRgbAt t = Some m"
        and least: "\<forall>pre' t'. cs = pre' @ t' \<and> length pre' < length pre \<longrightarrow> matchRgbAt t' = None"
        by blast
      have "\<forall>pre' t'. c # cs = pre' @ t' \<and> length pre' < length (c # pre) \<longrightarrow> matchRgbAt t' = None"
      proof (intro allI impI)
        fix pre' t' assume a: "c # cs = pre' @ t' \<and> length pre' < length (c # pre)"
        show "matchRgbAt t' = None"
        proof (cases pre')
          case Nil
          with a None show ?thesis by simp
        next
          case (Cons x xs)
          with a have "cs = xs @ t' \<and> length xs < length pre" by simp
          with least show ?thesis by blast
        qed
      qed
      moreover from e have "c # cs = (c # pre) @ t" by simp
      ultimately show ?L using m by blast
    qed
    with None Cons.IH show ?thesis by simp
  qed
qed

lemma matchRgb_None: "matchRgb s = None \<longleftrightarrow> \<not> rgbForm s"
proof
  assume n: "matchRgb s = None"
  show "\<not> rgbForm s"
  proof
    assume "rgbForm s"
    then obtain pre t m where e: "s = pre @ t" and "rgbAt t m" by (auto simp: rgbForm_def)
    then have "matchRgbAt t = Some m" by (simp add: matchRgbAt_iff)
    then have "matchRgb t \<noteq> None"
      by (cases t) (simp_all add: matchRgbAt_def startsWith_def)
    then have "matchRgb (pre @ t) \<noteq> None"
      by (induction pre) (auto split: option.splits)
    with n e show False by simp
  qed
next
  assume nf: "\<not> rgbForm s"
  show "matchRgb s = None"
  proof (rule ccontr)
    assume "matchRgb s \<noteq> None"
    then obtain m where "matchRgb s = Some m" by auto
    then obtain pre t where "s = pre @ t" "matchRgbAt t = Some m"
      unfolding matchRgb_Some by blast
    then have "rgbForm s" unfolding rgbForm_def matchRgbAt_iff by blast
    with nf show False by simp
  qed
qed

lemma gamma_spec: "gamma c = specLinear c"
  by (simp add: gamma_def specLinear_def)

lemma luminance_spec: "getRelativeLuminance (r, g, b) = specLuminance r g b"
  by (simp add: getRelativeLuminance_def specLuminance_def gamma_spec)

lemma specLuminance_white: "specLuminance 255 255 255 = 1"
  by (simp add: specLuminance_def specLinear_def)

lemma specLuminance_black: "specLuminance 0 0 0 = 0"
  by (simp add: specLuminance_def specLinear_def)


lemma parseColor_None: "parseColor env doc section = None \<longleftrightarrow> \<not> rgbForm (computedBackground env doc section)"
  by (auto simp: parseColor_def matchRgb_None [symmetric] split: option.splits)

lemma getColorScheme_None:
  "getColorScheme env doc section = None \<longleftrightarrow> \<not> rgbForm (computedBackground env doc section)"
  by (simp add: getColorScheme_def parseColor_None [symmetric] split: option.splits)

lemma getColorScheme_leftmost:
  assumes "computedBackground env doc section = pre @ t" and "rgbAt t (r, g, b)"
    and "\<forall>pre' t' m. computedBackground env doc section = pre' @ t' \<and> length pre' < length pre
           \<longrightarrow> \<not> rgbAt t' m"
  shows "getColorScheme env doc section =
           Some (if specLuminance (parseInt r) (parseInt g) (parseInt b) > 0.5
                 then ''light-scheme'' else ''dark-scheme'')"
proof -
  have "matchRgb (computedBackground env doc section) = Some (r, g, b)"
  proof -
    have "matchRgbAt t = Some (r, g, b)" using assms(2) by (simp add: matchRgbAt_iff)
    moreover have "\<forall>pre' t'. computedBackground env doc section = pre' @ t' \<and> length pre' < length pre
           \<longrightarrow> matchRgbAt t' = None"
    proof (intro allI impI)
      fix pre' t'
      assume a: "computedBackground env doc section = pre' @ t' \<and> length pre' < length pre"
      show "matchRgbAt t' = None"
      proof (cases "matchRgbAt t'")
        case (Some m)
        then have "rgbAt t' m" by (simp add: matchRgbAt_iff)
        with a assms(3) show ?thesis by blast
      qed simp
    qed
    ultimately show ?thesis unfolding matchRgb_Some using assms(1) by blast
  qed
  then show ?thesis
    by (simp add: getColorScheme_def parseColor_def luminance_spec)
qed


text \<open>An environment whose computed background is the same string everywhere.\<close>

definition styledEnv :: "string \<Rightarrow> env" where
  "styledEnv bg =
     \<lparr>trim = asciiTrim, toLowerCase = asciiLowerCase, cssBackground = exampleCss,
      validAttributeName = exampleName, computedBackground = (\<lambda>doc p. bg),
      toCamelCase = camelCase, urlPathname = examplePathname\<rparr>"


text \<open>What browsers report for a white and for an unset background.\<close>

definition whiteComputed :: string where
  "whiteComputed = ''rgb(255, 255, 255) none repeat scroll 0% 0% / auto padding-box border-box''"

definition transparentComputed :: string where
  "transparentComputed = ''rgba(0, 0, 0, 0) none repeat scroll 0% 0% / auto padding-box border-box''"

lemma rgbAt_white: "rgbAt whiteComputed (''255'', ''255'', ''255'')"
proof -
  have "matchRgbAt whiteComputed = Some (''255'', ''255'', ''255'')" by code_simp
  then show ?thesis by (simp add: matchRgbAt_iff)
qed

lemma not_rgbForm_transparent: "\<not> rgbForm transparentComputed"
proof -
  have "matchRgb transparentComputed = None" by code_simp
  then show ?thesis by (simp add: matchRgb_None)
qed


subsection \<open>Claim about the scheme\<close>

text \<open>
  C3.  Let \<open>bg\<close> be the computed background of the element.  When \<open>bg\<close> contains an
  \<^verbatim>\<open>rgb(r,g,b)\<close> form, the result is the light marker exactly when the luminance of the
  leftmost form, computed by the specification's formula, exceeds \<open>0.5\<close>, and the dark marker
  otherwise; \<^verbatim>\<open>rgb(255, 255, 255)\<close> gives light and \<^verbatim>\<open>rgb(0, 0, 0)\<close> gives dark; when \<open>bg\<close> contains
  no such form the result is \<^verbatim>\<open>null\<close>.  Numbers are real numbers.
\<close>

theorem getColorScheme_luminance:
  "(\<forall>pre t r g b.
      computedBackground env doc section = pre @ t \<and> rgbAt t (r, g, b) \<and>
      (\<forall>pre' t' m. computedBackground env doc section = pre' @ t' \<and> length pre' < length pre
         \<longrightarrow> \<not> rgbAt t' m)
      \<longrightarrow> getColorScheme env doc section =
            Some (if specLuminance (parseInt r) (parseInt g) (parseInt b) > 0.5
                  then ''light-scheme'' else ''dark-scheme'')) \<and>
   (rgbForm (computedBackground env doc section) \<longrightarrow>
      getColorScheme env doc section = Some ''light-scheme'' \<or>
      getColorScheme env doc section = Some ''dark-scheme'') \<and>
   (\<not> rgbForm (computedBackground env doc section) \<longrightarrow> getColorScheme env doc section = None) \<and>
   (computedBackground env doc section = ''rgb(255, 255, 255)'' \<longrightarrow>
      getColorScheme env doc section = Some ''light-scheme'') \<and>
   (computedBackground env doc section = ''rgb(0, 0, 0)'' \<longrightarrow>
      getColorScheme env doc section = Some ''dark-scheme'')"
proof (intro conjI allI impI)
  fix pre t r g b
  assume a: "computedBackground env doc section = pre @ t \<and> rgbAt t (r, g, b) \<and>
      (\<forall>pre' t' m. computedBackground env doc section = pre' @ t' \<and> length pre' < length pre
         \<longrightarrow> \<not> rgbAt t' m)"
  show "getColorScheme env doc section =
            Some (if specLuminance (parseInt r) (parseInt g) (parseInt b) > 0.5
                  then ''light-scheme'' else ''dark-scheme'')"
    by (rule getColorScheme_leftmost [OF a [THEN conjunct1] a [THEN conjunct2, THEN conjunct1]
          a [THEN conjunct2, THEN conjunct2]])
next
  assume "rgbForm (computedBackground env doc section)"
  then have "getColorScheme env doc section \<noteq> None" by (simp add: getColorScheme_None)
  then show "getColorScheme env doc section = Some ''light-scheme'' \<or>
      getColorScheme env doc section = Some ''dark-scheme''"
    by (auto simp: getColorScheme_def split: option.splits)
next
  assume "\<not> rgbForm (computedBackground env doc section)"
  then show "getColorScheme env doc section = None" by (simp add: getColorScheme_None)
next
  assume w: "computedBackground env doc section = ''rgb(255, 255, 255)''"
  have "matchRgb ''rgb(255, 255, 255)'' = Some (''255'', ''255'', ''255'')" by code_simp
  moreover have "parseInt ''255'' = 255" by code_simp
  ultimately show "getColorScheme env doc section = Some ''light-scheme''"
    by (simp add: getColorScheme_def parseColor_def w luminance_spec specLuminance_white)
next
  assume k: "computedBackground env doc section = ''rgb(0, 0, 0)''"
  have "matchRgb ''rgb(0, 0, 0)'' = Some (''0'', ''0'', ''0'')" by code_simp
  moreover have "parseInt ''0'' = 0" by code_simp
  ultimately show "getColorScheme env doc section = Some ''dark-scheme''"
    by (simp add: getColorScheme_def parseColor_def k luminance_spec specLuminance_black)
qed

text \<open>
  Witness for C3: the computed value of a white background, the computed value of an
  unset background (\<^verbatim>\<open>rgba\<close>, no match), and the two values the claim names.
\<close>

theorem getColorScheme_luminance_witness:
  "getColorScheme (styledEnv whiteComputed) heroSection [] = Some ''light-scheme'' \<and>
   getColorScheme (styledEnv transparentComputed) heroSection [] = None \<and>
   getColorScheme (styledEnv ''rgb(255, 255, 255)'') heroSection [] = Some ''light-scheme'' \<and>
   getColorScheme (styledEnv ''rgb(0, 0, 0)'') heroSection [] = Some ''dark-scheme''"
proof -
  have bgw: "computedBackground (styledEnv whiteComputed) heroSection [] = [] @ whiteComputed"
    by (simp add: styledEnv_def)
  have least: "\<forall>pre' t' m. computedBackground (styledEnv whiteComputed) heroSection [] = pre' @ t' \<and>
      length pre' < length ([] :: string) \<longrightarrow> \<not> rgbAt t' m"
    by simp
  have lum: "specLuminance (parseInt ''255'') (parseInt ''255'') (parseInt ''255'') > 0.5"
  proof -
    have "parseInt ''255'' = 255" by code_simp
    then show ?thesis by (simp add: specLuminance_white)
  qed
  have bgt: "\<not> rgbForm (computedBackground (styledEnv transparentComputed) heroSection [])"
    using not_rgbForm_transparent by (simp add: styledEnv_def)
  have w: "computedBackground (styledEnv ''rgb(255, 255, 255)'') heroSection [] = ''rgb(255, 255, 255)''"
    and k: "computedBackground (styledEnv ''rgb(0, 0, 0)'') heroSection [] = ''rgb(0, 0, 0)''"
    by (simp_all add: styledEnv_def)
  note T = getColorScheme_luminance [of "styledEnv whiteComputed" heroSection "[]"]
  have prem: "computedBackground (styledEnv whiteComputed) heroSection [] = [] @ whiteComputed \<and>
      rgbAt whiteComputed (''255'', ''255'', ''255'') \<and>
      (\<forall>pre' t' m. computedBackground (styledEnv whiteComputed) heroSection [] = pre' @ t' \<and>
          length pre' < length ([] :: string) \<longrightarrow> \<not> rgbAt t' m)"
    using bgw rgbAt_white by simp
  have "getColorScheme (styledEnv whiteComputed) heroSection [] =
          Some (if specLuminance (parseInt ''255'') (parseInt ''255'') (parseInt ''255'') > 0.5
                then ''light-scheme'' else ''dark-scheme'')"
    by (rule T [THEN conjunct1, THEN spec, THEN spec, THEN spec, THEN spec, THEN spec, THEN mp,
          OF prem])
  with lum have 1: "getColorScheme (styledEnv whiteComputed) heroSection [] = Some ''light-scheme''"
    by simp
  from getColorScheme_luminance [of "styledEnv transparentComputed" heroSection "[]"] bgt
  have 2: "getColorScheme (styledEnv transparentComputed) heroSection [] = None" by simp
  from getColorScheme_luminance [of "styledEnv ''rgb(255, 255, 255)''" heroSection "[]"] w
  have 3: "getColorScheme (styledEnv ''rgb(255, 255, 255)'') heroSection [] = Some ''light-scheme''" by simp
  from getColorScheme_luminance [of "styledEnv ''rgb(0, 0, 0)''" heroSection "[]"] k
  have 4: "getColorScheme (styledEnv ''rgb(0, 0, 0)'') heroSection [] = Some ''dark-scheme''" by simp
  from 1 2 3 4 show ?thesis by simp
qed

section \<open>Class lists as token sets\<close>

text \<open>
  The tokens read back from a \<^verbatim>\<open>class\<close> attribute are valid and distinct, and writing a list
  of valid, distinct tokens and reading it back gives the same list.
\<close>

lemma splitWhere_pieces:
  "\<forall>c \<in> set cur. \<not> p c \<Longrightarrow> x \<in> set (splitWhere p cur s) \<Longrightarrow> \<forall>c \<in> set x. \<not> p c"
proof (induction s arbitrary: cur)
  case Nil
  then show ?case by simp
next
  case (Cons a s)
  show ?case
  proof (cases "p a")
    case True
    with Cons.prems have "x = cur \<or> x \<in> set (splitWhere p [] s)" by simp
    then show ?thesis
    proof
      assume "x = cur" with Cons.prems show ?thesis by simp
    next
      assume "x \<in> set (splitWhere p [] s)"
      with Cons.IH [of "[]"] show ?thesis by simp
    qed
  next
    case False
    with Cons.prems have "x \<in> set (splitWhere p (cur @ [a]) s)" by simp
    moreover from False Cons.prems have "\<forall>c \<in> set (cur @ [a]). \<not> p c" by simp
    ultimately show ?thesis using Cons.IH by blast
  qed
qed

lemma set_orderedSet [simp]: "set (orderedSet xs) = set xs"
  by (induction xs rule: orderedSet.induct) auto

lemma distinct_orderedSet [simp]: "distinct (orderedSet xs)"
  by (induction xs rule: orderedSet.induct) auto

lemma orderedSet_distinct: "distinct xs \<Longrightarrow> orderedSet xs = xs"
proof (induction xs)
  case Nil
  show ?case by simp
next
  case (Cons x xs)
  then have "filter (\<lambda>u. u \<noteq> x) xs = xs" by (auto simp: filter_id_conv)
  with Cons show ?case by simp
qed

lemma tokens_valid: "t \<in> set (tokens s) \<Longrightarrow> validToken t"
  using splitWhere_pieces [of "[]" isAsciiWhitespace t s]
  by (auto simp: tokens_def validToken_def list_ex_iff)

lemma tokens_distinct: "distinct (tokens s)"
  by (simp add: tokens_def)

lemma splitWhere_skip:
  "\<forall>c \<in> set t. \<not> p c \<Longrightarrow> splitWhere p cur (t @ rest) = splitWhere p (cur @ t) rest"
  by (induction t arbitrary: cur) simp_all

lemma splitWhere_join:
  "p s \<Longrightarrow> \<forall>t \<in> set (x # ts). \<forall>c \<in> set t. \<not> p c \<Longrightarrow>
   splitWhere p cur (joinWith [s] (x # ts)) = (cur @ x) # ts"
proof (induction ts arbitrary: x cur)
  case Nil
  then show ?case using splitWhere_skip [of x p cur "[]"] by simp
next
  case (Cons y ys)
  have "splitWhere p cur (joinWith [s] (x # y # ys)) =
        splitWhere p (cur @ x) (s # joinWith [s] (y # ys))"
    using Cons.prems splitWhere_skip [of x p cur "s # joinWith [s] (y # ys)"] by simp
  also have "\<dots> = (cur @ x) # splitWhere p [] (joinWith [s] (y # ys))"
    using Cons.prems by simp
  also have "splitWhere p [] (joinWith [s] (y # ys)) = ([] @ y) # ys"
    using Cons.prems by (intro Cons.IH) simp_all
  finally show ?case by simp
qed

lemma space_ws [simp]: "isAsciiWhitespace CHR '' ''"
  by (simp add: isAsciiWhitespace_def)

lemma tokens_join:
  assumes "\<forall>t \<in> set ts. validToken t" and "distinct ts"
  shows "tokens (joinWith '' '' ts) = ts"
proof (cases ts)
  case Nil
  then show ?thesis by (simp add: tokens_def)
next
  case (Cons x xs)
  from assms(1) have nows: "\<forall>t \<in> set (x # xs). \<forall>c \<in> set t. \<not> isAsciiWhitespace c"
    and ne: "\<forall>t \<in> set ts. t \<noteq> []"
    by (auto simp: validToken_def list_ex_iff Cons)
  have "splitWhere isAsciiWhitespace [] (joinWith [CHR '' ''] (x # xs)) = ([] @ x) # xs"
    by (rule splitWhere_join [OF space_ws nows])
  then have "splitWhere isAsciiWhitespace [] (joinWith '' '' ts) = ts" by (simp add: Cons)
  moreover from ne have "filter (\<lambda>t. t \<noteq> []) ts = ts" by (simp add: filter_id_conv)
  ultimately show ?thesis using assms(2) by (simp add: tokens_def orderedSet_distinct)
qed

lemma validateTokens_valid:
  "validateTokens ts = None \<longleftrightarrow> (\<forall>t \<in> set ts. validToken t)"
  by (induction ts) (auto simp: validToken_def)

lemma nodeClass_setClassName: "isElement n \<Longrightarrow> nodeClass (setClassName c n) = c"
  by (cases n) simp_all

lemma classList_removeTokens:
  "isElement n \<Longrightarrow> classList (removeTokens ts n) = filter (\<lambda>t. t \<notin> set ts) (classList n)"
proof -
  assume el: "isElement n"
  have "tokens (joinWith '' '' (filter (\<lambda>t. t \<notin> set ts) (tokens (nodeClass n)))) =
        filter (\<lambda>t. t \<notin> set ts) (tokens (nodeClass n))"
    by (rule tokens_join) (auto simp: tokens_valid tokens_distinct)
  with el show ?thesis
    by (simp add: removeTokens_def classList_def nodeClass_setClassName)
qed

lemma isElement_setClassName [simp]: "isElement (setClassName c n) = isElement n"
  by (cases n) simp_all

lemma isElement_removeTokens [simp]: "isElement (removeTokens ts n) = isElement n"
  by (simp add: removeTokens_def)

lemma classList_valid: "t \<in> set (classList n) \<Longrightarrow> validToken t"
  by (simp add: classList_def tokens_valid)

lemma classList_addTokens:
  assumes "isElement n" and "\<forall>t \<in> set ts. validToken t"
  shows "classList (addTokens ts n) = orderedSet (classList n @ ts)"
proof -
  have "\<forall>t \<in> set (orderedSet (classList n @ ts)). validToken t"
    using assms(2) classList_valid by auto
  then have "tokens (joinWith '' '' (orderedSet (classList n @ ts))) = orderedSet (classList n @ ts)"
    by (intro tokens_join) simp_all
  with assms(1) show ?thesis
    by (simp add: addTokens_def classList_def nodeClass_setClassName)
qed

lemma classList_applyScheme:
  assumes "isElement c" and "scheme = ''light-scheme'' \<or> scheme = ''dark-scheme''"
  shows "classList (applyScheme scheme c) =
           filter (\<lambda>t. t \<noteq> ''light-scheme'' \<and> t \<noteq> ''dark-scheme'') (classList c) @ [scheme]"
proof -
  let ?r = "removeTokens [''light-scheme'', ''dark-scheme''] c"
  have r: "classList ?r = filter (\<lambda>t. t \<noteq> ''light-scheme'' \<and> t \<noteq> ''dark-scheme'') (classList c)"
    using assms(1) by (simp add: classList_removeTokens)
  have v: "\<forall>t \<in> set [scheme]. validToken t"
    using assms(2) by (auto simp: validToken_def isAsciiWhitespace_def)
  have d: "distinct (classList ?r @ [scheme])"
    using assms(2) unfolding r by (auto simp: classList_def tokens_distinct)
  have "classList (applyScheme scheme c) = orderedSet (classList ?r @ [scheme])"
    unfolding applyScheme_def using assms(1) v by (intro classList_addTokens) simp_all
  with d r show ?thesis by (simp add: orderedSet_distinct)
qed

lemma replace_prefix: "replace (p @ rest) p r = r @ rest"
proof (cases "p @ rest")
  case Nil
  then show ?thesis by simp
next
  case (Cons a list)
  have "startsWith (p @ rest) p" by (simp add: startsWith_def)
  moreover have "drop (length p) (p @ rest) = rest" by simp
  ultimately have "replace (a # list) p r = r @ rest" unfolding Cons by simp
  with Cons show ?thesis by simp
qed

lemma nodeAt_updateAt:
  "nodeAt doc p = Some n \<Longrightarrow> nodeAt (updateAt f p doc) p = Some (f n)"
proof (induction p arbitrary: doc)
  case Nil
  then show ?case by simp
next
  case (Cons i p)
  then show ?case by (cases doc) (auto split: if_splits)
qed

lemma getColorScheme_range:
  "getColorScheme env doc section = Some scheme \<Longrightarrow>
   scheme = ''light-scheme'' \<or> scheme = ''dark-scheme''"
  by (auto simp: getColorScheme_def split: option.splits if_splits)

section \<open>Section background\<close>

text \<open>
  \<open>schemeChildren scheme cs cs'\<close>: the child nodes \<open>cs'\<close> are the child nodes \<open>cs\<close> where every
  element has lost the tokens \<^verbatim>\<open>light-scheme\<close> and \<^verbatim>\<open>dark-scheme\<close> and has \<open>scheme\<close> as its last
  token; text nodes are the same.
\<close>

definition schemeChildren :: "string \<Rightarrow> node list \<Rightarrow> node list \<Rightarrow> bool" where
  "schemeChildren scheme cs cs' =
     (length cs' = length cs \<and>
      (\<forall>i < length cs.
         if isElement (cs ! i)
         then cs' ! i = applyScheme scheme (cs ! i) \<and>
              classList (cs' ! i) =
                filter (\<lambda>t. t \<noteq> ''light-scheme'' \<and> t \<noteq> ''dark-scheme'') (classList (cs ! i)) @
                [scheme]
         else cs' ! i = cs ! i))"

text \<open>
  An example environment: an element whose inline background is \<^verbatim>\<open>var(--color-brand)\<close> has a
  black computed background, one whose inline background is \<^verbatim>\<open>rgb(10, 10, 10)\<close> has that
  colour, and every other element has the unset one.
\<close>

definition blackComputed :: string where
  "blackComputed = ''rgb(0, 0, 0) none repeat scroll 0% 0% / auto padding-box border-box''"

definition darkComputed :: string where
  "darkComputed = ''rgb(10, 10, 10) none repeat scroll 0% 0% / auto padding-box border-box''"

definition brandEnv :: env where
  "brandEnv =
     \<lparr>trim = asciiTrim, toLowerCase = asciiLowerCase, cssBackground = exampleCss,
      validAttributeName = exampleName,
      computedBackground =
        (\<lambda>doc p. case nodeAt doc p of
                    Some (Element a cs) \<Rightarrow>
                      if styleBackground a = ''var(--color-brand)'' then blackComputed
                      else if styleBackground a = ''rgb(10, 10, 10)'' then darkComputed
                      else transparentComputed
                  | _ \<Rightarrow> transparentComputed),
      toCamelCase = camelCase,
      urlPathname = examplePathname\<rparr>"

lemma backgroundValue_token:
  "startsWith color ''color-token'' \<Longrightarrow>
   backgroundValue color = ''var(--color'' @ drop 11 color @ '')''"
proof -
  assume a: "startsWith color ''color-token''"
  then obtain rest where c: "color = ''color-token'' @ rest"
    unfolding startsWith_iff by blast
  have "replace (''color-token'' @ rest) ''color-token'' ''--color'' = ''--color'' @ rest"
    by (rule replace_prefix)
  moreover have "drop 11 color = rest" unfolding c by simp
  ultimately show ?thesis using a by (simp add: backgroundValue_def c)
qed

lemma schemeChildren_map:
  assumes "scheme = ''light-scheme'' \<or> scheme = ''dark-scheme''"
  shows "schemeChildren scheme cs (map (\<lambda>c. if isElement c then applyScheme scheme c else c) cs)"
  using assms by (simp add: schemeChildren_def classList_applyScheme)


section \<open>Section Metadata Interpreter\<close>

text \<open>
  The handler works on a document and the path of the metadata element \<^verbatim>\<open>el\<close>.  A step
  that can throw returns the state it leaves behind together with the exception.
\<close>

type_synonym state = "node \<times> nat list"

datatype 'a attempt = Done 'a | Threw error 'a

fun andThen :: "'a attempt \<Rightarrow> ('a \<Rightarrow> 'a attempt) \<Rightarrow> 'a attempt" where
  "andThen (Done s) f = f s"
| "andThen (Threw e s) f = Threw e s"

fun forEachE :: "('x \<Rightarrow> 'a \<Rightarrow> 'a attempt) \<Rightarrow> 'x list \<Rightarrow> 'a \<Rightarrow> 'a attempt" where
  "forEachE f [] s = Done s"
| "forEachE f (x # xs) s = andThen (f x s) (forEachE f xs)"

text \<open>
  Own enumerable string keys in the order of \<^verbatim>\<open>Object.keys\<close>: array indices first, in
  ascending numeric order, then the other keys in insertion order.  An assignment to
  \<^verbatim>\<open>__proto__\<close> sets the prototype and creates no own property, so that key is never
  listed.
\<close>

definition isArrayIndex :: "string \<Rightarrow> bool" where
  "isArrayIndex k =
     (k \<noteq> [] \<and> list_all isDigit k \<and> (k = ''0'' \<or> hd k \<noteq> CHR ''0'') \<and>
      parseInt k < 4294967295)"

definition objKeys :: "(string \<times> 'v) list \<Rightarrow> string list" where
  "objKeys m =
     (let ks = filter (\<lambda>k. k \<noteq> ''__proto__'') (map fst m) in
      sort_key parseInt (filter isArrayIndex ks) @ filter (\<lambda>k. \<not> isArrayIndex k) ks)"

text \<open>\<^verbatim>\<open>handleStyle(text, section)\<close>; the caller awaits it, so its exception reaches the caller.\<close>

definition styles :: "string \<Rightarrow> string list" where
  "styles text = map (\<lambda>style. replaceAllChar style CHR '' '' CHR ''-'') (splitStr text '', '')"

definition handleStyle :: "string \<Rightarrow> nat list \<Rightarrow> node \<Rightarrow> error + node" where
  "handleStyle text section doc = updateAtE (classListAdd (styles text)) section doc"

text \<open>
  \<^verbatim>\<open>handleLayout(text, section, type)\<close>.  The function is \<^verbatim>\<open>async\<close> and the caller drops its
  promise: an exception of the second \<^verbatim>\<open>classList.add\<close> ends the function and is not
  observed, and what was added before stays.
\<close>

definition handleLayout :: "string \<Rightarrow> nat list \<Rightarrow> string \<Rightarrow> node \<Rightarrow> node" where
  "handleLayout text section type doc =
     (if text = ''0'' then doc
      else (let doc1 = (if type = ''grid'' then updateAt (addTokens [''grid'']) section doc
                        else doc)
            in case updateAtE (classListAdd [type @ ''-'' @ text]) section doc1 of
                 Inl e \<Rightarrow> doc1
               | Inr doc2 \<Rightarrow> doc2))"

text \<open>\<^verbatim>\<open>querySelector('img')\<close>: the first descendant element with that tag, in document order.\<close>

fun descendants :: "node \<Rightarrow> node list" where
  "descendants (TextNode t) = []"
| "descendants (Element a cs) = concat (map (\<lambda>c. c # descendants c) cs)"

definition querySelectorTag :: "string \<Rightarrow> node \<Rightarrow> node option" where
  "querySelectorTag t n = List.find (\<lambda>d. isElement d \<and> nodeTag d = t) (descendants n)"

definition getProp :: "node \<Rightarrow> string \<Rightarrow> string" where
  "getProp n name =
     (case attrsOf n of
        None \<Rightarrow> []
      | Some a \<Rightarrow> (case map_of (props a) name of Some v \<Rightarrow> v | None \<Rightarrow> []))"

definition extractImageUrl :: "node \<Rightarrow> string option" where
  "extractImageUrl cell =
     (case querySelectorTag ''IMG'' cell of
        None \<Rightarrow> None
      | Some img \<Rightarrow> if getProp img ''src'' \<noteq> [] then Some (getProp img ''src'') else None)"

text \<open>The \<^verbatim>\<open>media\<close> strings of \<^verbatim>\<open>MEDIA_QUERIES\<close>.\<close>

definition mobileMedia :: string where
  "mobileMedia = ''(max-width: 599px)''"

definition tabletMedia :: string where
  "tabletMedia = ''(min-width: 600px) and (max-width: 899px)''"

definition desktopMedia :: string where
  "desktopMedia = ''(min-width: 900px)''"

definition createSource :: "env \<Rightarrow> string \<Rightarrow> string \<Rightarrow> string \<Rightarrow> error + node" where
  "createSource env src width mediaQuery =
     (case urlPathname env src of
        None \<Rightarrow> Inl TypeError
      | Some pathname \<Rightarrow>
          Inr (Element
                 \<lparr>tagName = ''SOURCE'', className = [], styleBackground = [], dataset = [],
                  props = [(''type'', ''image/webp''),
                           (''srcset'', pathname @ ''?width='' @ width @
                                        ''&format=webply&optimize=medium''),
                           (''media'', mediaQuery)]\<rparr> []))"

text \<open>
  A node inserted as first child of the element at \<open>target\<close> moves the index of every
  later child: the path of \<^verbatim>\<open>el\<close> follows when \<^verbatim>\<open>el\<close> lies below \<open>target\<close>.
\<close>

definition shiftBelow :: "nat list \<Rightarrow> nat list \<Rightarrow> nat list" where
  "shiftBelow target el =
     (if length target < length el \<and> take (length target) el = target
      then target @ Suc (el ! length target) # drop (Suc (length target)) el
      else el)"

text \<open>
  \<^verbatim>\<open>handleBackgroundImages(desktopUrl, mobileUrl, section)\<close>.  \<open>newPicture\<close> is the part that
  builds the picture, detached from the document, for a desktop URL that is there; an
  exception of \<^verbatim>\<open>createSource\<close> leaves the document as it was.  The \<^verbatim>\<open>onload\<close> handler runs
  later and is not part of the model.
\<close>

definition newPicture :: "env \<Rightarrow> string \<Rightarrow> string option \<Rightarrow> error + node" where
  "newPicture env desktop mobileUrl =
     (case (case mobileUrl of
              Some mobile \<Rightarrow> createSource env mobile ''600'' mobileMedia
            | None \<Rightarrow> createSource env desktop ''899'' tabletMedia) of
        Inl e \<Rightarrow> Inl e
      | Inr source1 \<Rightarrow>
          (case createSource env desktop ''1920'' desktopMedia of
             Inl e \<Rightarrow> Inl e
           | Inr source2 \<Rightarrow>
               (let defaultImgUrl = (case mobileUrl of Some mobile \<Rightarrow> mobile | None \<Rightarrow> desktop);
                    newImg = Element
                      \<lparr>tagName = ''IMG'', className = ''section-img'', styleBackground = [],
                       dataset = [],
                       props = [(''alt'', []), (''loading'', ''lazy''), (''src'', defaultImgUrl)]\<rparr>
                      []
                in Inr (Element
                          \<lparr>tagName = ''PICTURE'', className = ''bg-images'', styleBackground = [],
                           dataset = [], props = []\<rparr>
                          [source1, source2, newImg]))))"

definition handleBackgroundImages ::
    "env \<Rightarrow> string option \<Rightarrow> string option \<Rightarrow> nat list \<Rightarrow> state \<Rightarrow> state attempt" where
  "handleBackgroundImages env desktopUrl mobileUrl section s =
     (case desktopUrl of
        None \<Rightarrow> Done s
      | Some desktop \<Rightarrow>
          (case newPicture env desktop mobileUrl of
             Inl e \<Rightarrow> Threw e s
           | Inr newPic \<Rightarrow>
               Done (updateAt (\<lambda>n. prependNode (addTokens [''has-bg-images''] n) newPic)
                       section (fst s),
                     shiftBelow section (snd s))))"

text \<open>
  \<^verbatim>\<open>el.dataset[name] = v\<close>.  The setter raises \<^verbatim>\<open>SyntaxError\<close> when \<open>name\<close> has a hyphen followed
  by an ASCII lower-case letter; it then forms the attribute name (\<^verbatim>\<open>data-\<close>, and a hyphen and
  the lower-case letter for every ASCII upper-case letter) and raises
  \<^verbatim>\<open>InvalidCharacterError\<close> when that is no attribute name.  \<open>setData\<close> is the store that
  follows: the \<^verbatim>\<open>dataset\<close> is kept by property name.  The names \<^verbatim>\<open>objectFit\<close> and
  \<^verbatim>\<open>objectPosition\<close> pass both checks in every browser, so the script's assignments to them
  are \<open>setData\<close>.
\<close>

fun hyphenLower :: "string \<Rightarrow> bool" where
  "hyphenLower (c # d # cs) = ((c = CHR ''-'' \<and> isLowerAlpha d) \<or> hyphenLower (d # cs))"
| "hyphenLower cs = False"

definition attributeName :: "string \<Rightarrow> string" where
  "attributeName name =
     ''data-'' @ concat (map (\<lambda>c. if isUpperAlpha c then [CHR ''-'', lowerChar c] else [c]) name)"

fun setData :: "string \<Rightarrow> string \<Rightarrow> node \<Rightarrow> node" where
  "setData name v (Element a cs) = Element (a\<lparr>dataset := objSet (dataset a) name v\<rparr>) cs"
| "setData name v (TextNode t) = TextNode t"

definition datasetSet :: "env \<Rightarrow> string \<Rightarrow> string \<Rightarrow> node \<Rightarrow> error + node" where
  "datasetSet env name v n =
     (if hyphenLower name then Inl SyntaxError
      else if \<not> validAttributeName env (attributeName name) then Inl InvalidCharacterError
      else Inr (setData name v n))"

definition specialKeys :: "string list" where
  "specialKeys =
     [''style'', ''grid'', ''gap'', ''spacing'', ''container'', ''background-image'',
      ''background-image-mobile'', ''background'', ''background-block'',
      ''background-block-image'', ''background-block-image-mobile'', ''object-fit-block'',
      ''object-position-block'']"

text \<open>\<^verbatim>\<open>section.querySelectorAll(':scope > div.block-content')\<close>, as paths.\<close>

definition blockContents :: "node \<Rightarrow> nat list \<Rightarrow> nat list list" where
  "blockContents doc section =
     (case nodeAt doc section of
        None \<Rightarrow> []
      | Some n \<Rightarrow>
          map (\<lambda>i. section @ [i])
            (filter (\<lambda>i. isDiv (childNodes n ! i) \<and> contains (childNodes n ! i) ''block-content'')
               [0..<length (childNodes n)]))"

text \<open>\<^verbatim>\<open>metadata[key]?.text\<close> as a string (empty when absent) and the image of a key.\<close>

definition textOf :: "(string \<Rightarrow> entry option) \<Rightarrow> string \<Rightarrow> string" where
  "textOf metadata key = (case metadata key of None \<Rightarrow> [] | Some e \<Rightarrow> text' e)"

definition imageOf :: "(string \<Rightarrow> entry option) \<Rightarrow> string \<Rightarrow> string option" where
  "imageOf metadata key =
     (case metadata key of None \<Rightarrow> None | Some e \<Rightarrow> extractImageUrl (content e))"

text \<open>
  The body of \<^verbatim>\<open>handleSectionMetadata\<close> after \<^verbatim>\<open>metadata\<close> is read, in four parts: the special
  keys of the section, the catch-all data attributes, the background images of the
  section, and the \<^verbatim>\<open>block-content\<close> groups.  The metadata object enters as its lookup
  \<open>metadata\<close> and its key list \<open>keys\<close>.  The entries were read from \<^verbatim>\<open>el\<close> before any change;
  no step changes the text or the images inside \<^verbatim>\<open>el\<close>.  An exception in the \<^verbatim>\<open>forEach\<close> over
  the keys ends the handler with the data attributes set so far.
\<close>

definition sectionKeys :: "env \<Rightarrow> (string \<Rightarrow> entry option) \<Rightarrow> nat list \<Rightarrow> node \<Rightarrow> error + node"
  where
  "sectionKeys env metadata section doc =
     (case (if textOf metadata ''style'' \<noteq> []
            then handleStyle (textOf metadata ''style'') section doc else Inr doc) of
        Inl e \<Rightarrow> Inl e
      | Inr doc1 \<Rightarrow>
          (let doc2 = (if textOf metadata ''grid'' \<noteq> []
                       then handleLayout (textOf metadata ''grid'') section ''grid'' doc1 else doc1);
               doc3 = (if textOf metadata ''gap'' \<noteq> []
                       then handleLayout (textOf metadata ''gap'') section ''gap'' doc2 else doc2);
               doc4 = (if textOf metadata ''spacing'' \<noteq> []
                       then handleLayout (textOf metadata ''spacing'') section ''spacing'' doc3
                       else doc3);
               doc5 = (if textOf metadata ''container'' \<noteq> []
                       then handleLayout (textOf metadata ''container'') section ''container'' doc4
                       else doc4)
           in Inr (case metadata ''background'' of
                     None \<Rightarrow> doc5
                   | Some background \<Rightarrow>
                       if text' background \<noteq> [] then handleBackground env background section doc5
                       else doc5)))"

text \<open>
  The class tokens that the special keys ask for: the style tokens, and for each layout
  key with a text other than \<^verbatim>\<open>0\<close> the token \<^verbatim>\<open>grid\<close> (for that key) and the token made of the
  key and the text, when that is a class token.
\<close>

definition layoutClasses :: "string \<Rightarrow> string \<Rightarrow> string list" where
  "layoutClasses type text =
     (if text = [] \<or> text = ''0'' then []
      else (if type = ''grid'' then [''grid''] else []) @
           (if validToken (type @ ''-'' @ text) then [type @ ''-'' @ text] else []))"

definition sectionClasses :: "(string \<Rightarrow> entry option) \<Rightarrow> string list" where
  "sectionClasses metadata =
     (if textOf metadata ''style'' \<noteq> [] then styles (textOf metadata ''style'') else []) @
     layoutClasses ''grid'' (textOf metadata ''grid'') @
     layoutClasses ''gap'' (textOf metadata ''gap'') @
     layoutClasses ''spacing'' (textOf metadata ''spacing'') @
     layoutClasses ''container'' (textOf metadata ''container'')"

definition dataAttribute ::
    "env \<Rightarrow> (string \<Rightarrow> entry option) \<Rightarrow> nat list \<Rightarrow> string \<Rightarrow> node \<Rightarrow> node attempt" where
  "dataAttribute env metadata section key doc =
     (if key \<notin> set specialKeys
      then (case updateAtE (datasetSet env (toCamelCase env key) (textOf metadata key))
                   section doc of
              Inl e \<Rightarrow> Threw e doc
            | Inr doc' \<Rightarrow> Done doc')
      else Done doc)"

definition dataAttributes ::
    "env \<Rightarrow> (string \<Rightarrow> entry option) \<Rightarrow> string list \<Rightarrow> nat list \<Rightarrow> node \<Rightarrow> node attempt"
  where
  "dataAttributes env metadata keys section doc =
     forEachE (dataAttribute env metadata section) keys doc"

definition sectionImages ::
    "env \<Rightarrow> (string \<Rightarrow> entry option) \<Rightarrow> nat list \<Rightarrow> state \<Rightarrow> state attempt" where
  "sectionImages env metadata section s =
     (let desktopBgImg = imageOf metadata ''background-image'';
          mobileBgImg = imageOf metadata ''background-image-mobile''
      in if desktopBgImg \<noteq> None \<or> mobileBgImg \<noteq> None
         then handleBackgroundImages env desktopBgImg mobileBgImg section s
         else Done s)"

definition blockContentKeys ::
    "env \<Rightarrow> (string \<Rightarrow> entry option) \<Rightarrow> nat list \<Rightarrow> state \<Rightarrow> state attempt" where
  "blockContentKeys env metadata section s =
     (let blocks = blockContents (fst s) section in
      if blocks = [] then Done s
      else
        (let s1 = (case metadata ''background-block'' of
                     None \<Rightarrow> s
                   | Some background \<Rightarrow>
                       if text' background \<noteq> []
                       then (foldl (\<lambda>d blockContent. handleBackground env background blockContent d)
                               (fst s) blocks, snd s)
                       else s);
             desktopBlockBgImg = imageOf metadata ''background-block-image'';
             mobileBlockBgImg = imageOf metadata ''background-block-image-mobile''
         in andThen
              (if desktopBlockBgImg \<noteq> None \<or> mobileBlockBgImg \<noteq> None
               then forEachE (handleBackgroundImages env desktopBlockBgImg mobileBlockBgImg)
                      blocks s1
               else Done s1)
              (\<lambda>s2.
                 (let d3 = (if textOf metadata ''object-fit-block'' \<noteq> []
                            then foldl (\<lambda>d blockContent.
                                   updateAt (setData ''objectFit''
                                     (textOf metadata ''object-fit-block'')) blockContent d)
                                   (fst s2) blocks
                            else fst s2);
                      d4 = (if textOf metadata ''object-position-block'' \<noteq> []
                            then foldl (\<lambda>d blockContent.
                                   updateAt (setData ''objectPosition''
                                     (textOf metadata ''object-position-block'')) blockContent d)
                                   d3 blocks
                            else d3)
                  in Done (d4, snd s2)))))"

text \<open>
  \<open>afterSpecialKeys\<close> is the handler from the catch-all loop to \<^verbatim>\<open>el.remove()\<close>; \<open>applyMetadata\<close>
  puts the special keys of the section before it.
\<close>

definition afterSpecialKeys ::
    "env \<Rightarrow> (string \<Rightarrow> entry option) \<Rightarrow> string list \<Rightarrow> nat list \<Rightarrow> state \<Rightarrow> state attempt"
  where
  "afterSpecialKeys env metadata keys section s =
     (case dataAttributes env metadata keys section (fst s) of
        Threw e doc2 \<Rightarrow> Threw e (doc2, snd s)
      | Done doc2 \<Rightarrow>
          andThen (sectionImages env metadata section (doc2, snd s))
            (\<lambda>s1. andThen (blockContentKeys env metadata section s1)
               (\<lambda>s2. Done (removeAt (snd s2) (fst s2), snd s2))))"

definition applyMetadata ::
    "env \<Rightarrow> (string \<Rightarrow> entry option) \<Rightarrow> string list \<Rightarrow> nat list \<Rightarrow> state \<Rightarrow> state attempt"
  where
  "applyMetadata env metadata keys section s =
     (case sectionKeys env metadata section (fst s) of
        Inl e \<Rightarrow> Threw e s
      | Inr doc1 \<Rightarrow> afterSpecialKeys env metadata keys section (doc1, snd s))"

text \<open>
  \<^verbatim>\<open>handleSectionMetadata(el)\<close>: the document afterwards, and the exception when the promise
  is rejected.  \<^verbatim>\<open>el\<close> is an element of the document.
\<close>

definition handleSectionMetadata :: "env \<Rightarrow> node \<Rightarrow> nat list \<Rightarrow> node attempt" where
  "handleSectionMetadata env doc el =
     (case closest doc el ''section'' of
        None \<Rightarrow> Done doc
      | Some section \<Rightarrow>
          (case nodeAt doc el of
             None \<Rightarrow> Done doc
           | Some elNode \<Rightarrow>
               (let metadata = getSectionMetadata env elNode in
                case applyMetadata env (objGet metadata) (objKeys metadata) section (doc, el) of
                  Done s \<Rightarrow> Done (fst s)
                | Threw e s \<Rightarrow> Threw e (fst s))))"

subsection \<open>The effects in terms of the metadata\<close>

text \<open>
  What the values of a metadata lookup ask for, on the attributes of an element before
  (\<open>a\<close>) and after (\<open>a'\<close>) a part of the handler.  \<open>sectionKeysEffect\<close>: the class list has
  gained the class tokens of the special keys, and the inline background is the one
  assigned from the key \<^verbatim>\<open>background\<close>.  \<open>dataEffect\<close>: every other key has its data
  attribute, whose value is the text of a key with that attribute name.  \<open>pictureEffect\<close>:
  for a desktop image, the element has the class \<^verbatim>\<open>has-bg-images\<close> and its first child is the
  picture built from the image URLs.  \<open>blockEffect\<close>: the inline background, the two data
  attributes and the picture of a \<^verbatim>\<open>block-content\<close> group.
\<close>

definition sectionKeysEffect :: "env \<Rightarrow> (string \<Rightarrow> entry option) \<Rightarrow> attrs \<Rightarrow> attrs \<Rightarrow> bool" where
  "sectionKeysEffect env metadata a a' =
     (set (tokens (className a')) = set (tokens (className a)) \<union> set (sectionClasses metadata) \<and>
      styleBackground a' =
        (if textOf metadata ''background'' = [] then styleBackground a
         else assignedBackground env (backgroundValue (textOf metadata ''background''))
                (styleBackground a)))"

definition dataEffect ::
    "env \<Rightarrow> (string \<Rightarrow> entry option) \<Rightarrow> string list \<Rightarrow> (string \<times> string) list \<Rightarrow> bool" where
  "dataEffect env metadata keys ds =
     (\<forall>k \<in> set keys. k \<notin> set specialKeys \<longrightarrow>
        (\<exists>k' \<in> set keys. k' \<notin> set specialKeys \<and> toCamelCase env k' = toCamelCase env k \<and>
           map_of ds (toCamelCase env k) = Some (textOf metadata k')))"

definition pictureEffect ::
    "env \<Rightarrow> string option \<Rightarrow> string option \<Rightarrow> attrs \<Rightarrow> node list \<Rightarrow> bool" where
  "pictureEffect env desktopUrl mobileUrl a' cs' =
     (case desktopUrl of
        None \<Rightarrow> True
      | Some desktop \<Rightarrow>
          ''has-bg-images'' \<in> set (tokens (className a')) \<and>
          (case cs' of
             [] \<Rightarrow> False
           | pic # rest \<Rightarrow> newPicture env desktop mobileUrl = Inr pic))"

definition blockEffect ::
    "env \<Rightarrow> (string \<Rightarrow> entry option) \<Rightarrow> attrs \<Rightarrow> attrs \<Rightarrow> node list \<Rightarrow> bool" where
  "blockEffect env metadata a a' cs' =
     (styleBackground a' =
        (if textOf metadata ''background-block'' = [] then styleBackground a
         else assignedBackground env (backgroundValue (textOf metadata ''background-block''))
                (styleBackground a)) \<and>
      (textOf metadata ''object-fit-block'' \<noteq> [] \<longrightarrow>
         map_of (dataset a') ''objectFit'' = Some (textOf metadata ''object-fit-block'')) \<and>
      (textOf metadata ''object-position-block'' \<noteq> [] \<longrightarrow>
         map_of (dataset a') ''objectPosition'' =
           Some (textOf metadata ''object-position-block'')) \<and>
      pictureEffect env (imageOf metadata ''background-block-image'')
        (imageOf metadata ''background-block-image-mobile'') a' cs')"

subsection \<open>Examples\<close>

text \<open>
  A metadata table with the key \<^verbatim>\<open>background\<close> in two rows, a page whose section holds the
  table, and a page where the table has no enclosing section.
\<close>

definition metaRow :: "string \<Rightarrow> node list \<Rightarrow> node" where
  "metaRow k v = elem ''DIV'' [] [elem ''DIV'' [] [TextNode k], elem ''DIV'' [] v]"

definition imgNode :: "string \<Rightarrow> node" where
  "imgNode u =
     Element \<lparr>tagName = ''IMG'', className = [], styleBackground = [], dataset = [],
              props = [(''src'', u)]\<rparr> []"

definition exampleTable :: node where
  "exampleTable = elem ''DIV'' ''section-metadata''
     [TextNode '' '',
      metaRow ''Background'' [TextNode ''red''],
      metaRow '' Style '' [TextNode ''Highlight, Two Words''],
      metaRow ''grid'' [TextNode ''2''],
      metaRow ''gap'' [TextNode ''0''],
      metaRow ''Custom Key'' [TextNode '' Hello ''],
      metaRow ''background'' [TextNode ''Color-Token-Brand''],
      metaRow ''background-image''
        [elem ''PICTURE'' [] [imgNode ''https://example.com/media/a.png'']],
      metaRow ''object-fit-block'' [TextNode ''cover'']]"

definition examplePage :: node where
  "examplePage = elem ''MAIN'' []
     [elem ''DIV'' ''section''
        [elem ''DIV'' ''default-content'' [elem ''H1'' [] [TextNode ''Title'']],
         elem ''DIV'' ''block-content'' [elem ''DIV'' ''hero'' []],
         exampleTable]]"

definition orphanPage :: node where
  "orphanPage = elem ''MAIN'' [] [elem ''DIV'' [] [exampleTable]]"

text \<open>
  A page whose section holds a paragraph, a \<^verbatim>\<open>DIV\<close> with the classes \<^verbatim>\<open>hero light-scheme\<close> and a
  metadata table with the given rows; and a page whose section has the given inline
  background and children.
\<close>

definition pageWith :: "node list \<Rightarrow> node" where
  "pageWith rows = elem ''MAIN'' []
     [elem ''DIV'' ''section''
        [elem ''P'' [] [], elem ''DIV'' ''hero light-scheme'' [],
         elem ''DIV'' ''section-metadata'' rows]]"

definition pageAfter :: "string \<Rightarrow> node list \<Rightarrow> node" where
  "pageAfter bg kids = elem ''MAIN'' []
     [Element \<lparr>tagName = ''DIV'', className = ''section'', styleBackground = bg, dataset = [],
               props = []\<rparr> kids]"

text \<open>The example page after the handler has run on its metadata table.\<close>

definition examplePageAfter :: node where
  "examplePageAfter = elem ''MAIN'' []
     [Element
        \<lparr>tagName = ''DIV'',
         className = ''section highlight two-words grid grid-2 has-bg-images'',
         styleBackground = ''var(--color-brand)'', dataset = [(''customKey'', ''hello'')],
         props = []\<rparr>
        [Element
           \<lparr>tagName = ''PICTURE'', className = ''bg-images'', styleBackground = [], dataset = [],
            props = []\<rparr>
           [Element
              \<lparr>tagName = ''SOURCE'', className = [], styleBackground = [], dataset = [],
               props = [(''type'', ''image/webp''),
                        (''srcset'', ''/media/a.png?width=899&format=webply&optimize=medium''),
                        (''media'', ''(min-width: 600px) and (max-width: 899px)'')]\<rparr> [],
            Element
              \<lparr>tagName = ''SOURCE'', className = [], styleBackground = [], dataset = [],
               props = [(''type'', ''image/webp''),
                        (''srcset'', ''/media/a.png?width=1920&format=webply&optimize=medium''),
                        (''media'', ''(min-width: 900px)'')]\<rparr> [],
            Element
              \<lparr>tagName = ''IMG'', className = ''section-img'', styleBackground = [],
               dataset = [],
               props = [(''alt'', []), (''loading'', ''lazy''),
                        (''src'', ''https://example.com/media/a.png'')]\<rparr> []],
         elem ''DIV'' ''default-content dark-scheme'' [elem ''H1'' [] [TextNode ''Title'']],
         Element
           \<lparr>tagName = ''DIV'', className = ''block-content dark-scheme'', styleBackground = [],
            dataset = [(''objectFit'', ''cover'')], props = []\<rparr>
           [elem ''DIV'' ''hero'' []]]]"

text \<open>A page whose table has the one row \<^verbatim>\<open>background | color-token-brand\<close>.\<close>

definition brandTable :: node where
  "brandTable =
     elem ''DIV'' ''section-metadata'' [metaRow ''background'' [TextNode ''color-token-brand'']]"

definition brandPage :: node where
  "brandPage = pageWith [metaRow ''background'' [TextNode ''color-token-brand'']]"

definition brandEntry :: entry where
  "brandEntry =
     \<lparr>content = elem ''DIV'' [] [TextNode ''color-token-brand''], text' = ''color-token-brand''\<rparr>"

subsection \<open>The metadata object\<close>

lemma objGet_objSet: "objGet (objSet m k v) k' = (if k' = k then Some v else objGet m k')"
  by (induction m) (auto simp: objGet_def)

lemma keys_objSet:
  "map fst (objSet m k v) = (if k \<in> set (map fst m) then map fst m else map fst m @ [k])"
  by (induction m) force+

lemma metadataRow_get:
  "objGet (metadataRow env m row) k =
     (if definesKey env k row then Some (rowValue env row) else objGet m k)"
  by (auto simp: metadataRow_def definesKey_def objGet_objSet Let_def)

lemma lastOccurrence_Cons:
  "lastOccurrence env (row # rows) k =
     (case lastOccurrence env rows k of
        Some e \<Rightarrow> Some e
      | None \<Rightarrow> if definesKey env k row then Some (rowValue env row) else None)"
  by (auto simp: lastOccurrence_def split: list.splits)

lemma foldl_metadataRow_get:
  "objGet (foldl (metadataRow env) m rows) k =
     (case lastOccurrence env rows k of Some e \<Rightarrow> Some e | None \<Rightarrow> objGet m k)"
proof (induction rows arbitrary: m)
  case Nil
  show ?case by (simp add: lastOccurrence_def)
next
  case (Cons row rows)
  show ?case
    by (simp add: Cons.IH metadataRow_get lastOccurrence_Cons split: option.splits)
qed

lemma foldl_metadataRow_distinct:
  "distinct (map fst m) \<Longrightarrow> distinct (map fst (foldl (metadataRow env) m rows))"
proof (induction rows arbitrary: m)
  case Nil
  then show ?case by simp
next
  case (Cons row rows)
  have "distinct (map fst (metadataRow env m row))"
    using Cons.prems by (simp add: metadataRow_def Let_def keys_objSet)
  from Cons.IH [OF this] show ?case by simp
qed

lemma getSectionMetadata_get:
  "objGet (getSectionMetadata env el) = lastOccurrence env (childNodes el)"
proof
  fix k
  show "objGet (getSectionMetadata env el) k = lastOccurrence env (childNodes el) k"
    by (simp add: getSectionMetadata_def foldl_metadataRow_get split: option.splits)
       (simp add: objGet_def)
qed

lemma getSectionMetadata_distinct: "distinct (map fst (getSectionMetadata env el))"
  by (simp add: getSectionMetadata_def foldl_metadataRow_distinct)

lemma lastOccurrence_split:
  assumes "rows = pre @ r # post" and "definesKey env k r"
    and "\<forall>r' \<in> set post. \<not> definesKey env k r'"
  shows "lastOccurrence env rows k = Some (rowValue env r)"
proof -
  from assms(3) have "filter (definesKey env k) post = []" by (simp add: filter_empty_conv)
  with assms(1,2) have "filter (definesKey env k) rows = filter (definesKey env k) pre @ [r]"
    by simp
  moreover have "lastOccurrence env rows k =
      (if filter (definesKey env k) rows = [] then None
       else Some (rowValue env (last (filter (definesKey env k) rows))))"
    by (simp add: lastOccurrence_def split: list.splits)
  ultimately show ?thesis by simp
qed

lemma distinct_keys_once:
  "distinct (map fst m) \<Longrightarrow> length (filter (\<lambda>kv. fst kv = k) m) \<le> 1"
proof (induction m)
  case Nil
  then show ?case by simp
next
  case (Cons a m)
  show ?case
  proof (cases "fst a = k")
    case True
    from Cons.prems have "fst a \<notin> fst ` set m" by simp
    have "\<forall>kv \<in> set m. fst kv \<noteq> k"
    proof
      fix kv assume "kv \<in> set m"
      then have "fst kv \<in> fst ` set m" by (rule imageI)
      with True \<open>fst a \<notin> fst ` set m\<close> show "fst kv \<noteq> k" by metis
    qed
    then have "filter (\<lambda>kv. fst kv = k) m = []" by (simp add: filter_empty_conv)
    with True show ?thesis by simp
  next
    case False
    with Cons show ?thesis by simp
  qed
qed


lemma closest_None:
  "closest doc el name = None \<longleftrightarrow> (\<forall>k \<le> length el. \<not> hasClassAt doc name (take k el))"
proof -
  have "(\<forall>x \<in> set (ancestorsOrSelf el). \<not> hasClassAt doc name x) \<longleftrightarrow>
        (\<forall>k \<le> length el. \<not> hasClassAt doc name (take k el))"
    by (auto simp: ancestorsOrSelf_def less_Suc_eq_le)
  then show ?thesis
    unfolding closest_def find_None_iff by blast
qed


subsection \<open>Updates at a path\<close>

text \<open>
  Reading a path after an update: at the path itself, at a sibling, and through two
  updates of one path.
\<close>

lemma nodeAt_updateAt_same: "nodeAt (updateAt f p d) p = map_option f (nodeAt d p)"
proof (induction p arbitrary: d)
  case Nil
  show ?case by simp
next
  case (Cons i p)
  show ?case
  proof (cases d)
    case (TextNode t)
    then show ?thesis by simp
  next
    case (Element a cs)
    then show ?thesis by (simp add: Cons.IH)
  qed
qed

lemma updateAt_const: "nodeAt d p = Some n \<Longrightarrow> updateAt f p d = updateAt (\<lambda>_. f n) p d"
proof (induction p arbitrary: d)
  case Nil
  then show ?case by simp
next
  case (Cons i p)
  show ?case
  proof (cases d)
    case (TextNode t)
    then show ?thesis by simp
  next
    case (Element a cs)
    with Cons.prems have "i < length cs" and "nodeAt (cs ! i) p = Some n"
      by (simp_all split: if_splits)
    with Cons.IH [of "cs ! i"] Element show ?thesis by simp
  qed
qed

lemma updateAt_twice: "updateAt f p (updateAt g p d) = updateAt (\<lambda>n. f (g n)) p d"
proof (induction p arbitrary: d)
  case Nil
  show ?case by simp
next
  case (Cons i p)
  show ?case
  proof (cases d)
    case (TextNode t)
    then show ?thesis by simp
  next
    case (Element a cs)
    then show ?thesis by (simp add: Cons.IH)
  qed
qed

lemma updateAt_id: "nodeAt d p = Some n \<Longrightarrow> updateAt (\<lambda>_. n) p d = d"
proof (induction p arbitrary: d)
  case Nil
  then show ?case by simp
next
  case (Cons i p)
  show ?case
  proof (cases d)
    case (TextNode t)
    then show ?thesis by simp
  next
    case (Element a cs)
    with Cons.prems have "i < length cs" and "nodeAt (cs ! i) p = Some n"
      by (simp_all split: if_splits)
    with Cons.IH [of "cs ! i"] Element show ?thesis by simp
  qed
qed

lemma nodeAt_updateAt_sibling:
  "i \<noteq> j \<Longrightarrow> nodeAt (updateAt g (p @ [i]) d) (p @ [j]) = nodeAt d (p @ [j])"
proof (induction p arbitrary: d)
  case Nil
  then show ?case by (cases d) simp_all
next
  case (Cons k p)
  show ?case
  proof (cases d)
    case (TextNode t)
    then show ?thesis by simp
  next
    case (Element a cs)
    then show ?thesis using Cons.IH [OF Cons.prems] by simp
  qed
qed

lemma nodeAt_append:
  "nodeAt d (p @ q) = (case nodeAt d p of None \<Rightarrow> None | Some n \<Rightarrow> nodeAt n q)"
  by (induction p arbitrary: d) simp_all

subsection \<open>The special keys of the section\<close>

text \<open>
  \<open>classStep section S d d'\<close>: from \<open>d\<close> to \<open>d'\<close> only the class attribute of the element at
  \<open>section\<close> changes, and its class list gains the tokens \<open>S\<close>.
\<close>

definition classStep :: "nat list \<Rightarrow> string set \<Rightarrow> node \<Rightarrow> node \<Rightarrow> bool" where
  "classStep section S d d' =
     (\<forall>a cs. nodeAt d section = Some (Element a cs) \<longrightarrow>
        (\<exists>c. d' = updateAt (\<lambda>_. Element (a\<lparr>className := c\<rparr>) cs) section d \<and>
             set (tokens c) = set (tokens (className a)) \<union> S))"

lemma classStep_refl: "classStep section {} d d"
proof -
  have "d = updateAt (\<lambda>_. Element (a\<lparr>className := className a\<rparr>) cs) section d"
    if "nodeAt d section = Some (Element a cs)" for a cs
    using updateAt_id [OF that] by simp
  then show ?thesis unfolding classStep_def by blast
qed

lemma classStep_trans:
  assumes "classStep section S d d'" and "classStep section T d' d''"
  shows "classStep section (S \<union> T) d d''"
  unfolding classStep_def
proof (intro allI impI)
  fix a cs
  assume n: "nodeAt d section = Some (Element a cs)"
  with assms(1) obtain c where
    d': "d' = updateAt (\<lambda>_. Element (a\<lparr>className := c\<rparr>) cs) section d" and
    c: "set (tokens c) = set (tokens (className a)) \<union> S"
    unfolding classStep_def by blast
  have "nodeAt d' section = Some (Element (a\<lparr>className := c\<rparr>) cs)"
    unfolding d' by (simp add: nodeAt_updateAt_same n)
  with assms(2) obtain c' where
    d'': "d'' = updateAt (\<lambda>_. Element (a\<lparr>className := c, className := c'\<rparr>) cs) section d'" and
    c': "set (tokens c') = set (tokens (className (a\<lparr>className := c\<rparr>))) \<union> T"
    unfolding classStep_def by blast
  have "d'' = updateAt (\<lambda>_. Element (a\<lparr>className := c'\<rparr>) cs) section d"
    unfolding d'' d' by (simp add: updateAt_twice)
  moreover have "set (tokens c') = set (tokens (className a)) \<union> (S \<union> T)"
    using c c' by auto
  ultimately show "\<exists>c. d'' = updateAt (\<lambda>_. Element (a\<lparr>className := c\<rparr>) cs) section d \<and>
             set (tokens c) = set (tokens (className a)) \<union> (S \<union> T)"
    by blast
qed

lemma tokens_addTokens:
  assumes "\<forall>t \<in> set ts. validToken t"
  shows "set (tokens (joinWith '' '' (orderedSet (tokens c @ ts)))) = set (tokens c) \<union> set ts"
proof -
  have "\<forall>t \<in> set (orderedSet (tokens c @ ts)). validToken t"
    using assms tokens_valid by auto
  then have "tokens (joinWith '' '' (orderedSet (tokens c @ ts))) = orderedSet (tokens c @ ts)"
    by (intro tokens_join) simp_all
  then show ?thesis by simp
qed

lemma classStep_addTokens:
  assumes "\<forall>t \<in> set ts. validToken t"
  shows "classStep section (set ts) d (updateAt (addTokens ts) section d)"
  unfolding classStep_def
proof (intro allI impI)
  fix a cs
  assume n: "nodeAt d section = Some (Element a cs)"
  let ?c = "joinWith '' '' (orderedSet (tokens (className a) @ ts))"
  have "addTokens ts (Element a cs) = Element (a\<lparr>className := ?c\<rparr>) cs"
    by (simp add: addTokens_def classList_def)
  then have "updateAt (addTokens ts) section d =
      updateAt (\<lambda>_. Element (a\<lparr>className := ?c\<rparr>) cs) section d"
    using updateAt_const [OF n, of "addTokens ts"] by simp
  moreover have "set (tokens ?c) = set (tokens (className a)) \<union> set ts"
    by (rule tokens_addTokens [OF assms])
  ultimately show "\<exists>c. updateAt (addTokens ts) section d =
        updateAt (\<lambda>_. Element (a\<lparr>className := c\<rparr>) cs) section d \<and>
      set (tokens c) = set (tokens (className a)) \<union> set ts"
    by blast
qed

lemma updateAtE_classListAdd:
  "updateAtE (classListAdd ts) section d =
     (case nodeAt d section of
        None \<Rightarrow> Inr d
      | Some n \<Rightarrow> (case validateTokens ts of
                     Some e \<Rightarrow> Inl e
                   | None \<Rightarrow> Inr (updateAt (addTokens ts) section d)))"
proof (cases "nodeAt d section")
  case None
  then show ?thesis by (simp add: updateAtE_def)
next
  case (Some n)
  show ?thesis
  proof (cases "validateTokens ts")
    case None
    with Some show ?thesis
      using updateAt_const [OF Some, of "addTokens ts"]
      by (simp add: updateAtE_def classListAdd_def)
  next
    case (Some e)
    with \<open>nodeAt d section = Some n\<close> show ?thesis
      by (simp add: updateAtE_def classListAdd_def)
  qed
qed

lemma handleStyle_step:
  assumes "handleStyle text section d = Inr d'"
  shows "classStep section (set (styles text)) d d'"
proof (cases "nodeAt d section")
  case None
  then show ?thesis by (simp add: classStep_def)
next
  case (Some n)
  with assms have v: "validateTokens (styles text) = None"
    and d': "d' = updateAt (addTokens (styles text)) section d"
    by (auto simp: handleStyle_def updateAtE_classListAdd split: option.splits)
  from v have "\<forall>t \<in> set (styles text). validToken t" by (simp add: validateTokens_valid)
  then show ?thesis unfolding d' by (rule classStep_addTokens)
qed

lemma validateTokens_single: "validateTokens [t] = None \<longleftrightarrow> validToken t"
  by (simp add: validToken_def)

lemma handleLayout_step:
  "classStep section (set (layoutClasses type text)) d
     (if text \<noteq> [] then handleLayout text section type d else d)"
proof (cases "text = [] \<or> text = ''0''")
  case True
  then show ?thesis
    using classStep_refl [of "section" d] by (auto simp: layoutClasses_def handleLayout_def)
next
  case False
  define d1 where "d1 = (if type = ''grid'' then updateAt (addTokens [''grid'']) section d else d)"
  have g: "validToken ''grid''" by (simp add: validToken_def isAsciiWhitespace_def)
  have 1: "classStep section (set (if type = ''grid'' then [''grid''] else [])) d d1"
    unfolding d1_def using classStep_addTokens [of "[''grid'']" "section" d] g classStep_refl [of "section" d]
    by simp
  define d2 where "d2 = (case updateAtE (classListAdd [type @ ''-'' @ text]) section d1 of
                 Inl e \<Rightarrow> d1 | Inr d2 \<Rightarrow> d2)"
  have 2: "classStep section
      (set (if validToken (type @ ''-'' @ text) then [type @ ''-'' @ text] else [])) d1 d2"
  proof (cases "nodeAt d1 section")
    case None
    then show ?thesis by (simp add: classStep_def)
  next
    case (Some n)
    show ?thesis
    proof (cases "validToken (type @ ''-'' @ text)")
      case True
      then have "validateTokens [type @ ''-'' @ text] = None"
        by (simp only: validateTokens_single)
      with Some have "d2 = updateAt (addTokens [type @ ''-'' @ text]) section d1"
        by (simp add: d2_def updateAtE_classListAdd)
      with True classStep_addTokens [of "[type @ ''-'' @ text]" "section" d1] show ?thesis by simp
    next
      case False
      then have "validateTokens [type @ ''-'' @ text] \<noteq> None"
        by (simp only: validateTokens_single not_False_eq_True)
      with Some have "d2 = d1"
        by (auto simp: d2_def updateAtE_classListAdd split: option.splits)
      with False classStep_refl [of "section" d1] show ?thesis by simp
    qed
  qed
  have "handleLayout text section type d = d2"
    unfolding handleLayout_def d2_def d1_def Let_def using False by simp
  moreover have "set (layoutClasses type text) =
      set (if type = ''grid'' then [''grid''] else []) \<union>
      set (if validToken (type @ ''-'' @ text) then [type @ ''-'' @ text] else [])"
    using False by (simp add: layoutClasses_def)
  ultimately show ?thesis using classStep_trans [OF 1 2] False by simp
qed

lemma handleBackground_node:
  assumes n: "nodeAt d section = Some (Element a cs)" and t: "text' background \<noteq> []"
  shows "\<exists>cs1. handleBackground env background section d =
            updateAt (\<lambda>_. Element (a\<lparr>styleBackground :=
              assignedBackground env (backgroundValue (text' background)) (styleBackground a)\<rparr>) cs1)
              section d \<and>
          (case getColorScheme env
                  (updateAt (\<lambda>_. Element (a\<lparr>styleBackground :=
                     assignedBackground env (backgroundValue (text' background))
                       (styleBackground a)\<rparr>) cs) section d) section of
             None \<Rightarrow> cs1 = cs
           | Some scheme \<Rightarrow> schemeChildren scheme cs cs1)"
proof -
  define sb where
    "sb = assignedBackground env (backgroundValue (text' background)) (styleBackground a)"
  define styled where "styled = updateAt (\<lambda>_. Element (a\<lparr>styleBackground := sb\<rparr>) cs) section d"
  have s0: "updateAt (setBackground env (backgroundValue (text' background))) section d = styled"
    unfolding styled_def sb_def
    using updateAt_const [OF n, of "setBackground env (backgroundValue (text' background))"]
    by simp
  have hb: "handleBackground env background section d = setColorScheme env section styled"
    using t by (simp add: handleBackground_def s0)
  have ns: "nodeAt styled section = Some (Element (a\<lparr>styleBackground := sb\<rparr>) cs)"
    unfolding styled_def by (simp add: nodeAt_updateAt_same n)
  show ?thesis
    unfolding sb_def [symmetric] styled_def [symmetric]
  proof (cases "getColorScheme env styled section")
    case None
    have "setColorScheme env section styled = styled"
      by (simp add: setColorScheme_def None)
    then have "handleBackground env background section d =
        updateAt (\<lambda>_. Element (a\<lparr>styleBackground := sb\<rparr>) cs) section d"
      by (simp add: hb styled_def)
    with None show "\<exists>cs1. handleBackground env background section d =
            updateAt (\<lambda>_. Element (a\<lparr>styleBackground := sb\<rparr>) cs1) section d \<and>
          (case getColorScheme env styled section of
             None \<Rightarrow> cs1 = cs | Some scheme \<Rightarrow> schemeChildren scheme cs cs1)"
      by simp
  next
    case (Some scheme)
    let ?cs1 = "map (\<lambda>c. if isElement c then applyScheme scheme c else c) cs"
    have "updateAt (mapChildren (applyScheme scheme)) section styled =
        updateAt (\<lambda>_. mapChildren (applyScheme scheme) (Element (a\<lparr>styleBackground := sb\<rparr>) cs))
          section styled"
      by (rule updateAt_const [OF ns])
    moreover have "setColorScheme env section styled =
        updateAt (mapChildren (applyScheme scheme)) section styled"
      by (simp add: setColorScheme_def Some)
    ultimately have "handleBackground env background section d =
        updateAt (\<lambda>_. Element (a\<lparr>styleBackground := sb\<rparr>) ?cs1) section d"
      by (simp add: hb styled_def updateAt_twice)
    moreover have "schemeChildren scheme cs ?cs1"
      by (rule schemeChildren_map [OF getColorScheme_range [OF Some]])
    ultimately show "\<exists>cs1. handleBackground env background section d =
            updateAt (\<lambda>_. Element (a\<lparr>styleBackground := sb\<rparr>) cs1) section d \<and>
          (case getColorScheme env styled section of
             None \<Rightarrow> cs1 = cs | Some scheme \<Rightarrow> schemeChildren scheme cs cs1)"
      using Some by auto
  qed
qed

lemma sectionKeys_classes:
  assumes "sectionKeys env M section doc = Inr doc1"
  shows "\<exists>doc5. classStep section (set (sectionClasses M)) doc doc5 \<and>
           doc1 = (case M ''background'' of
                     None \<Rightarrow> doc5
                   | Some background \<Rightarrow>
                       if text' background \<noteq> [] then handleBackground env background section doc5
                       else doc5)"
proof -
  obtain d1 where st: "(if textOf M ''style'' \<noteq> []
            then handleStyle (textOf M ''style'') section doc else Inr doc) = Inr d1"
  proof (cases "(if textOf M ''style'' \<noteq> []
            then handleStyle (textOf M ''style'') section doc else Inr doc)")
    case (Inl e)
    then have "sectionKeys env M section doc = Inl e" by (simp add: sectionKeys_def)
    with assms show ?thesis by simp
  next
    case (Inr d)
    with that show ?thesis by blast
  qed
  define d2 where "d2 = (if textOf M ''grid'' \<noteq> []
                       then handleLayout (textOf M ''grid'') section ''grid'' d1 else d1)"
  define d3 where "d3 = (if textOf M ''gap'' \<noteq> []
                       then handleLayout (textOf M ''gap'') section ''gap'' d2 else d2)"
  define d4 where "d4 = (if textOf M ''spacing'' \<noteq> []
                       then handleLayout (textOf M ''spacing'') section ''spacing'' d3 else d3)"
  define d5 where "d5 = (if textOf M ''container'' \<noteq> []
                       then handleLayout (textOf M ''container'') section ''container'' d4 else d4)"
  have r: "doc1 = (case M ''background'' of
                     None \<Rightarrow> d5
                   | Some background \<Rightarrow>
                       if text' background \<noteq> [] then handleBackground env background section d5
                       else d5)"
    using assms unfolding sectionKeys_def st d2_def d3_def d4_def d5_def Let_def by simp
  have 1: "classStep section
      (set (if textOf M ''style'' \<noteq> [] then styles (textOf M ''style'') else [])) doc d1"
  proof (cases "textOf M ''style'' \<noteq> []")
    case True
    with st have "handleStyle (textOf M ''style'') section doc = Inr d1" by simp
    from handleStyle_step [OF this] True show ?thesis by simp
  next
    case False
    with st have "d1 = doc" by simp
    with False classStep_refl [of "section" doc] show ?thesis by simp
  qed
  have 2: "classStep section (set (layoutClasses ''grid'' (textOf M ''grid''))) d1 d2"
    unfolding d2_def by (rule handleLayout_step)
  have 3: "classStep section (set (layoutClasses ''gap'' (textOf M ''gap''))) d2 d3"
    unfolding d3_def by (rule handleLayout_step)
  have 4: "classStep section (set (layoutClasses ''spacing'' (textOf M ''spacing''))) d3 d4"
    unfolding d4_def by (rule handleLayout_step)
  have 5: "classStep section (set (layoutClasses ''container'' (textOf M ''container''))) d4 d5"
    unfolding d5_def by (rule handleLayout_step)
  have "set (sectionClasses M) =
      (((set (if textOf M ''style'' \<noteq> [] then styles (textOf M ''style'') else []) \<union>
      set (layoutClasses ''grid'' (textOf M ''grid''))) \<union>
      set (layoutClasses ''gap'' (textOf M ''gap''))) \<union>
      set (layoutClasses ''spacing'' (textOf M ''spacing''))) \<union>
      set (layoutClasses ''container'' (textOf M ''container''))"
    unfolding sectionClasses_def by (simp only: set_append Un_assoc)
  with classStep_trans [OF classStep_trans [OF classStep_trans [OF classStep_trans [OF 1 2] 3] 4] 5]
  have "classStep section (set (sectionClasses M)) doc d5" by simp
  with r show ?thesis by blast
qed

lemma sectionKeys_effect:
  assumes n: "nodeAt doc section = Some (Element a cs)"
    and r: "sectionKeys env M section doc = Inr doc1"
  shows "\<exists>c cs1.
           doc1 = updateAt (\<lambda>_. Element (a\<lparr>className := c, styleBackground :=
                    (if textOf M ''background'' = [] then styleBackground a
                     else assignedBackground env (backgroundValue (textOf M ''background''))
                            (styleBackground a))\<rparr>) cs1) section doc \<and>
           set (tokens c) = set (tokens (className a)) \<union> set (sectionClasses M) \<and>
           (if textOf M ''background'' = [] then cs1 = cs
            else (case getColorScheme env
                         (updateAt (\<lambda>_. Element (a\<lparr>className := c, styleBackground :=
                            assignedBackground env (backgroundValue (textOf M ''background''))
                              (styleBackground a)\<rparr>) cs) section doc) section of
                    None \<Rightarrow> cs1 = cs
                  | Some scheme \<Rightarrow> schemeChildren scheme cs cs1))"
proof -
  from sectionKeys_classes [OF r] obtain doc5 where
    cl: "classStep section (set (sectionClasses M)) doc doc5" and
    d1: "doc1 = (case M ''background'' of
                     None \<Rightarrow> doc5
                   | Some background \<Rightarrow>
                       if text' background \<noteq> [] then handleBackground env background section doc5
                       else doc5)"
    by blast
  from cl n obtain c where
    d5: "doc5 = updateAt (\<lambda>_. Element (a\<lparr>className := c\<rparr>) cs) section doc" and
    c: "set (tokens c) = set (tokens (className a)) \<union> set (sectionClasses M)"
    unfolding classStep_def by blast
  have n5: "nodeAt doc5 section = Some (Element (a\<lparr>className := c\<rparr>) cs)"
    unfolding d5 by (simp add: nodeAt_updateAt_same n)
  show ?thesis
  proof (cases "textOf M ''background'' = []")
    case True
    then have "doc1 = doc5" using d1 by (auto simp: textOf_def split: option.splits)
    then have "doc1 = updateAt (\<lambda>_. Element (a\<lparr>className := c,
        styleBackground := styleBackground a\<rparr>) cs) section doc"
      by (simp add: d5)
    with True c show ?thesis by auto
  next
    case False
    then obtain background where b: "M ''background'' = Some background"
      and t: "text' background \<noteq> []" and te: "textOf M ''background'' = text' background"
      by (auto simp: textOf_def split: option.splits)
    from handleBackground_node [OF n5 t, of env] obtain cs1 where
      h: "handleBackground env background section doc5 =
            updateAt (\<lambda>_. Element (a\<lparr>className := c, styleBackground :=
              assignedBackground env (backgroundValue (text' background)) (styleBackground a)\<rparr>) cs1)
              section doc5" and
      k: "(case getColorScheme env
                  (updateAt (\<lambda>_. Element (a\<lparr>className := c, styleBackground :=
                     assignedBackground env (backgroundValue (text' background))
                       (styleBackground a)\<rparr>) cs) section doc5) section of
             None \<Rightarrow> cs1 = cs
           | Some scheme \<Rightarrow> schemeChildren scheme cs cs1)"
      by auto
    have "doc1 = updateAt (\<lambda>_. Element (a\<lparr>className := c, styleBackground :=
              assignedBackground env (backgroundValue (text' background)) (styleBackground a)\<rparr>) cs1)
              section doc"
      using d1 b t h by (simp add: d5 updateAt_twice)
    moreover have "updateAt (\<lambda>_. Element (a\<lparr>className := c, styleBackground :=
                     assignedBackground env (backgroundValue (text' background))
                       (styleBackground a)\<rparr>) cs) section doc5 =
        updateAt (\<lambda>_. Element (a\<lparr>className := c, styleBackground :=
                     assignedBackground env (backgroundValue (text' background))
                       (styleBackground a)\<rparr>) cs) section doc"
      by (simp add: d5 updateAt_twice)
    ultimately show ?thesis using False c k te by auto
  qed
qed

lemma sectionKeys_throws:
  assumes "nodeAt doc section = Some n"
  shows "sectionKeys env M section doc = Inl e \<longleftrightarrow>
           textOf M ''style'' \<noteq> [] \<and> validateTokens (styles (textOf M ''style'')) = Some e"
  using assms
  by (auto simp: sectionKeys_def handleStyle_def updateAtE_classListAdd Let_def
      split: sum.splits option.splits if_splits)

subsection \<open>Data attributes and the images of the section\<close>

lemma dataAttribute_Done:
  assumes n: "nodeAt d section = Some (Element a cs)"
    and r: "dataAttribute env M section key d = Done d'"
  shows "d' = updateAt (\<lambda>_. Element (a\<lparr>dataset :=
                 (if key \<in> set specialKeys then dataset a
                  else objSet (dataset a) (toCamelCase env key) (textOf M key))\<rparr>) cs) section d"
proof (cases "key \<in> set specialKeys")
  case True
  with r have "d' = d" by (simp add: dataAttribute_def)
  with True updateAt_id [OF n] show ?thesis by simp
next
  case False
  with r n show ?thesis
    by (auto simp: dataAttribute_def updateAtE_def datasetSet_def split: sum.splits if_splits)
qed

lemma dataAttributes_effect:
  assumes "nodeAt d1 section = Some (Element a cs)"
    and "dataAttributes env M keys section d1 = Done d2"
  shows "\<exists>ds. d2 = updateAt (\<lambda>_. Element (a\<lparr>dataset := ds\<rparr>) cs) section d1 \<and>
          (\<forall>k \<in> set keys. k \<notin> set specialKeys \<longrightarrow>
             (\<exists>k' \<in> set keys. k' \<notin> set specialKeys \<and>
                toCamelCase env k' = toCamelCase env k \<and>
                map_of ds (toCamelCase env k) = Some (textOf M k'))) \<and>
          (\<forall>name. (\<forall>k \<in> set keys. k \<notin> set specialKeys \<longrightarrow> toCamelCase env k \<noteq> name) \<longrightarrow>
             map_of ds name = map_of (dataset a) name)"
  using assms
proof (induction keys arbitrary: d1 a)
  case Nil
  then have "d2 = d1" by (simp add: dataAttributes_def)
  with updateAt_id [OF Nil.prems(1)] have "d2 = updateAt (\<lambda>_. Element (a\<lparr>dataset := dataset a\<rparr>) cs) section d1"
    by simp
  then show ?case by (intro exI [of _ "dataset a"]) simp
next
  case (Cons key ks)
  let ?ds1 = "if key \<in> set specialKeys then dataset a
              else objSet (dataset a) (toCamelCase env key) (textOf M key)"
  from Cons.prems(2) obtain d1' where
    s: "dataAttribute env M section key d1 = Done d1'" and
    rest: "dataAttributes env M ks section d1' = Done d2"
    by (cases "dataAttribute env M section key d1") (simp_all add: dataAttributes_def)
  from dataAttribute_Done [OF Cons.prems(1) s]
  have d1': "d1' = updateAt (\<lambda>_. Element (a\<lparr>dataset := ?ds1\<rparr>) cs) section d1" .
  have n1: "nodeAt d1' section = Some (Element (a\<lparr>dataset := ?ds1\<rparr>) cs)"
    unfolding d1' by (simp add: nodeAt_updateAt_same Cons.prems(1))
  from Cons.IH [OF n1 rest] obtain ds where
    d2: "d2 = updateAt (\<lambda>_. Element (a\<lparr>dataset := ?ds1, dataset := ds\<rparr>) cs) section d1'" and
    hit: "\<forall>k \<in> set ks. k \<notin> set specialKeys \<longrightarrow>
             (\<exists>k' \<in> set ks. k' \<notin> set specialKeys \<and>
                toCamelCase env k' = toCamelCase env k \<and>
                map_of ds (toCamelCase env k) = Some (textOf M k'))" and
    miss: "\<forall>name. (\<forall>k \<in> set ks. k \<notin> set specialKeys \<longrightarrow> toCamelCase env k \<noteq> name) \<longrightarrow>
             map_of ds name = map_of (dataset (a\<lparr>dataset := ?ds1\<rparr>)) name"
    by blast
  have e: "d2 = updateAt (\<lambda>_. Element (a\<lparr>dataset := ds\<rparr>) cs) section d1"
    unfolding d2 d1' by (simp add: updateAt_twice)
  have own: "map_of ?ds1 (toCamelCase env key) = Some (textOf M key)" if "key \<notin> set specialKeys"
    using that objGet_objSet [of "dataset a" "toCamelCase env key" "textOf M key" "toCamelCase env key"]
    by (simp add: objGet_def)
  have other: "map_of ?ds1 name = map_of (dataset a) name"
    if "key \<notin> set specialKeys \<longrightarrow> toCamelCase env key \<noteq> name" for name
    using that objGet_objSet [of "dataset a" "toCamelCase env key" "textOf M key" name]
    by (auto simp: objGet_def)
  have h: "\<exists>k' \<in> set (key # ks). k' \<notin> set specialKeys \<and>
                toCamelCase env k' = toCamelCase env k \<and>
                map_of ds (toCamelCase env k) = Some (textOf M k')"
    if k: "k \<in> set (key # ks)" and ns: "k \<notin> set specialKeys" for k
  proof (cases "\<exists>k'' \<in> set ks. k'' \<notin> set specialKeys \<and> toCamelCase env k'' = toCamelCase env k")
    case True
    then obtain k'' where k'': "k'' \<in> set ks" "k'' \<notin> set specialKeys"
      "toCamelCase env k'' = toCamelCase env k" by blast
    with hit obtain k' where "k' \<in> set ks" "k' \<notin> set specialKeys"
      "toCamelCase env k' = toCamelCase env k''"
      "map_of ds (toCamelCase env k'') = Some (textOf M k')" by blast
    with k''(3) show ?thesis by auto
  next
    case False
    with k ns have kk: "k = key" by auto
    from False have "\<forall>k'' \<in> set ks. k'' \<notin> set specialKeys \<longrightarrow>
        toCamelCase env k'' \<noteq> toCamelCase env k" by blast
    with miss have "map_of ds (toCamelCase env k) = map_of ?ds1 (toCamelCase env k)" by simp
    with own ns kk have "map_of ds (toCamelCase env k) = Some (textOf M key)" by simp
    with ns kk show ?thesis by auto
  qed
  have m: "map_of ds name = map_of (dataset a) name"
    if "\<forall>k \<in> set (key # ks). k \<notin> set specialKeys \<longrightarrow> toCamelCase env k \<noteq> name" for name
  proof -
    from that have "\<forall>k \<in> set ks. k \<notin> set specialKeys \<longrightarrow> toCamelCase env k \<noteq> name" by simp
    with miss have "map_of ds name = map_of ?ds1 name" by simp
    moreover from that have "key \<notin> set specialKeys \<longrightarrow> toCamelCase env key \<noteq> name" by simp
    ultimately show ?thesis using other by simp
  qed
  from e h m show ?case by blast
qed

lemma addTokens_Element:
  "addTokens ts (Element a cs) =
     Element (a\<lparr>className := joinWith '' '' (orderedSet (tokens (className a) @ ts))\<rparr>) cs"
  by (simp add: addTokens_def classList_def)

lemma has_bg_images_valid: "validToken ''has-bg-images''"
  by (simp add: validToken_def isAsciiWhitespace_def)

lemma attach_Element:
  "\<exists>c. prependNode (addTokens [''has-bg-images''] (Element a cs)) pic =
          Element (a\<lparr>className := c\<rparr>) (pic # cs) \<and>
        set (tokens c) = set (tokens (className a)) \<union> {''has-bg-images''}"
proof -
  have "set (tokens (joinWith '' '' (orderedSet (tokens (className a) @ [''has-bg-images'']))))
      = set (tokens (className a)) \<union> set [''has-bg-images'']"
    by (rule tokens_addTokens) (simp add: has_bg_images_valid)
  then show ?thesis
    by (intro exI [of _ "joinWith '' '' (orderedSet (tokens (className a) @ [''has-bg-images'']))"])
       (simp add: addTokens_Element)
qed

lemma sectionImages_effect:
  assumes n: "nodeAt d2 section = Some (Element a cs)"
    and r: "sectionImages env M section (d2, p) = Done s3"
  shows "case imageOf M ''background-image'' of
           None \<Rightarrow> s3 = (d2, p)
         | Some desktop \<Rightarrow>
             (\<exists>pic c. newPicture env desktop (imageOf M ''background-image-mobile'') = Inr pic \<and>
                s3 = (updateAt (\<lambda>_. Element (a\<lparr>className := c\<rparr>) (pic # cs)) section d2,
                      shiftBelow section p) \<and>
                set (tokens c) = set (tokens (className a)) \<union> {''has-bg-images''})"
proof (cases "imageOf M ''background-image''")
  case None
  with r show ?thesis
    by (simp add: sectionImages_def handleBackgroundImages_def Let_def split: if_splits)
next
  case (Some desktop)
  with r obtain pic where
    np: "newPicture env desktop (imageOf M ''background-image-mobile'') = Inr pic" and
    s3: "s3 = (updateAt (\<lambda>n. prependNode (addTokens [''has-bg-images''] n) pic) section d2,
               shiftBelow section p)"
    by (auto simp: sectionImages_def handleBackgroundImages_def Let_def split: sum.splits)
  from attach_Element [of a cs pic] obtain c where
    c: "prependNode (addTokens [''has-bg-images''] (Element a cs)) pic =
          Element (a\<lparr>className := c\<rparr>) (pic # cs)"
    and t: "set (tokens c) = set (tokens (className a)) \<union> {''has-bg-images''}" by blast
  have "updateAt (\<lambda>n. prependNode (addTokens [''has-bg-images''] n) pic) section d2 =
      updateAt (\<lambda>_. Element (a\<lparr>className := c\<rparr>) (pic # cs)) section d2"
    using updateAt_const [OF n, of "\<lambda>n. prependNode (addTokens [''has-bg-images''] n) pic"] c
    by simp
  with s3 np t Some show ?thesis by auto
qed

subsection \<open>The block contents\<close>

text \<open>
  The \<^verbatim>\<open>block-content\<close> groups are children of the section with different indices: a step
  on one of them leaves the others as they are.
\<close>

lemma nodeAt_updateAt_child:
  "nodeAt (updateAt g (p @ [i]) d) (p @ [j]) =
     (if i = j then map_option g (nodeAt d (p @ [j])) else nodeAt d (p @ [j]))"
  using nodeAt_updateAt_same [of g "p @ [j]" d] nodeAt_updateAt_sibling [of i j g p d]
  by simp

lemma foldl_sibling_untouched:
  assumes other: "\<And>d i. i \<noteq> j \<Longrightarrow> nodeAt (step d i) (p @ [j]) = nodeAt d (p @ [j])"
  shows "j \<notin> set is \<Longrightarrow> nodeAt (foldl step d is) (p @ [j]) = nodeAt d (p @ [j])"
proof (induction "is" arbitrary: d)
  case Nil
  show ?case by simp
next
  case (Cons i "is")
  then have "i \<noteq> j" and "j \<notin> set is" by auto
  with Cons.IH [of "step d i"] other [of i d] show ?case by simp
qed

lemma foldl_sibling_touched:
  assumes other: "\<And>d i. i \<noteq> j \<Longrightarrow> nodeAt (step d i) (p @ [j]) = nodeAt d (p @ [j])"
    and own: "\<And>d. nodeAt (step d j) (p @ [j]) = map_option (G d) (nodeAt d (p @ [j]))"
  shows "distinct is \<Longrightarrow> j \<in> set is \<Longrightarrow>
         \<exists>d0. nodeAt (foldl step d is) (p @ [j]) = map_option (G d0) (nodeAt d (p @ [j]))"
proof (induction "is" arbitrary: d)
  case Nil
  then show ?case by simp
next
  case (Cons i "is")
  show ?case
  proof (cases "i = j")
    case True
    with Cons.prems have "j \<notin> set is" by simp
    from foldl_sibling_untouched [of j step p "is" "step d j", OF other this]
    have "nodeAt (foldl step (step d j) is) (p @ [j]) = nodeAt (step d j) (p @ [j])" by simp
    with own [of d] True show ?thesis by auto
  next
    case False
    with Cons.prems have "distinct is" and "j \<in> set is" by auto
    from Cons.IH [OF this, of "step d i"] obtain d0 where
      "nodeAt (foldl step (step d i) is) (p @ [j]) =
         map_option (G d0) (nodeAt (step d i) (p @ [j]))" by blast
    with other [OF False, of d] show ?thesis by auto
  qed
qed

lemma blockContents_paths:
  "\<exists>is. blockContents d section = map (\<lambda>i. section @ [i]) is \<and> distinct is \<and>
         (\<forall>i \<in> set is. \<exists>a cs. nodeAt d (section @ [i]) = Some (Element a cs))"
proof (cases "nodeAt d section")
  case None
  then have "blockContents d section = map (\<lambda>i. section @ [i]) []"
    by (simp add: blockContents_def)
  then show ?thesis by (intro exI [of _ "[]"]) simp
next
  case (Some n)
  let ?is = "filter (\<lambda>i. isDiv (childNodes n ! i) \<and> contains (childNodes n ! i) ''block-content'')
               [0..<length (childNodes n)]"
  have 1: "blockContents d section = map (\<lambda>i. section @ [i]) ?is"
    by (simp add: blockContents_def Some)
  have 2: "distinct ?is" by simp
  have 3: "\<exists>a cs. nodeAt d (section @ [i]) = Some (Element a cs)" if "i \<in> set ?is" for i
  proof -
    from that have lt: "i < length (childNodes n)" and dv: "isDiv (childNodes n ! i)" by simp_all
    from lt have "nodeAt d (section @ [i]) = Some (childNodes n ! i)"
      by (simp add: nodeAt_append Some)
    moreover from dv obtain a cs where "childNodes n ! i = Element a cs"
      by (cases "childNodes n ! i") (simp_all add: isDiv_def)
    ultimately show ?thesis by simp
  qed
  from 1 2 3 show ?thesis by blast
qed

lemma setColorScheme_other:
  "i \<noteq> j \<Longrightarrow> nodeAt (setColorScheme env (p @ [i]) d) (p @ [j]) = nodeAt d (p @ [j])"
  by (simp add: setColorScheme_def nodeAt_updateAt_sibling split: option.splits)

lemma handleBackground_other:
  "i \<noteq> j \<Longrightarrow> nodeAt (handleBackground env bg (p @ [i]) d) (p @ [j]) = nodeAt d (p @ [j])"
  by (simp add: handleBackground_def Let_def setColorScheme_other nodeAt_updateAt_sibling)

text \<open>
  What \<^verbatim>\<open>handleBackground\<close> makes of the element at \<open>b\<close>, read in the document \<open>d\<close>.
\<close>

definition backgroundNode :: "env \<Rightarrow> entry \<Rightarrow> nat list \<Rightarrow> node \<Rightarrow> node \<Rightarrow> node" where
  "backgroundNode env bg b d n =
     (case getColorScheme env (updateAt (setBackground env (backgroundValue (text' bg))) b d) b of
        None \<Rightarrow> setBackground env (backgroundValue (text' bg)) n
      | Some scheme \<Rightarrow>
          mapChildren (applyScheme scheme) (setBackground env (backgroundValue (text' bg)) n))"

lemma handleBackground_own:
  "text' bg \<noteq> [] \<Longrightarrow>
   nodeAt (handleBackground env bg b d) b = map_option (backgroundNode env bg b d) (nodeAt d b)"
  by (cases "nodeAt d b")
     (simp_all add: handleBackground_def Let_def setColorScheme_def backgroundNode_def
        nodeAt_updateAt_same split: option.splits)

lemma backgroundNode_Element:
  "\<exists>cs'. backgroundNode env bg b d (Element a cs) =
     Element (a\<lparr>styleBackground :=
                assignedBackground env (backgroundValue (text' bg)) (styleBackground a)\<rparr>) cs'"
  by (simp add: backgroundNode_def split: option.splits)

lemma foldl_handleBackground:
  assumes t: "text' bg \<noteq> []" and "distinct is" and "j \<in> set is"
    and n: "nodeAt d (p @ [j]) = Some (Element a cs)"
  shows "\<exists>cs'. nodeAt (foldl (\<lambda>d i. handleBackground env bg (p @ [i]) d) d is) (p @ [j]) =
           Some (Element (a\<lparr>styleBackground :=
                   assignedBackground env (backgroundValue (text' bg)) (styleBackground a)\<rparr>) cs')"
proof -
  have "\<exists>d0. nodeAt (foldl (\<lambda>d i. handleBackground env bg (p @ [i]) d) d is) (p @ [j]) =
           map_option (backgroundNode env bg (p @ [j]) d0) (nodeAt d (p @ [j]))"
    by (rule foldl_sibling_touched [where G = "backgroundNode env bg (p @ [j])"])
       (simp_all add: handleBackground_other handleBackground_own t assms(2,3))
  then obtain d0 where "nodeAt (foldl (\<lambda>d i. handleBackground env bg (p @ [i]) d) d is) (p @ [j]) =
           Some (backgroundNode env bg (p @ [j]) d0 (Element a cs))"
    using n by auto
  with backgroundNode_Element [of env bg "p @ [j]" d0 a cs] show ?thesis by auto
qed

lemma foldl_updateAt:
  assumes "distinct is" and "j \<in> set is"
  shows "nodeAt (foldl (\<lambda>d i. updateAt g (p @ [i]) d) d is) (p @ [j]) =
           map_option g (nodeAt d (p @ [j]))"
proof -
  have "\<exists>d0 :: node. nodeAt (foldl (\<lambda>d i. updateAt g (p @ [i]) d) d is) (p @ [j]) =
           map_option ((\<lambda>_. g) d0) (nodeAt d (p @ [j]))"
    by (rule foldl_sibling_touched [where G = "\<lambda>_. g"])
       (simp_all add: nodeAt_updateAt_child assms)
  then show ?thesis by simp
qed

lemma forEachE_images_None:
  "forEachE (handleBackgroundImages env None mobile) bs s = Done s"
  by (induction bs) (simp_all add: handleBackgroundImages_def)

lemma forEachE_images_Some:
  "forEachE (handleBackgroundImages env (Some desktop) mobile) bs s =
     (case newPicture env desktop mobile of
        Inl e \<Rightarrow> if bs = [] then Done s else Threw e s
      | Inr pic \<Rightarrow>
          Done (foldl (\<lambda>d b. updateAt (\<lambda>n. prependNode (addTokens [''has-bg-images''] n) pic) b d)
                  (fst s) bs,
                foldl (\<lambda>q b. shiftBelow b q) (snd s) bs))"
proof (induction bs arbitrary: s)
  case Nil
  show ?case by (simp split: sum.splits)
next
  case (Cons b bs)
  have step: "handleBackgroundImages env (Some desktop) mobile b s =
      (case newPicture env desktop mobile of
         Inl e \<Rightarrow> Threw e s
       | Inr pic \<Rightarrow>
           Done (updateAt (\<lambda>n. prependNode (addTokens [''has-bg-images''] n) pic) b (fst s),
                 shiftBelow b (snd s)))"
    by (simp add: handleBackgroundImages_def)
  show ?case
    by (cases "newPicture env desktop mobile") (simp_all add: step Cons.IH)
qed

lemma foldl_updateAt_blocks:
  assumes "distinct is" and "j \<in> set is"
  shows "nodeAt (foldl (\<lambda>d b. updateAt g b d) d (map (\<lambda>i. p @ [i]) is)) (p @ [j]) =
           map_option g (nodeAt d (p @ [j]))"
  using foldl_updateAt [OF assms, of g p d] by (simp add: foldl_map)

lemma foldl_handleBackground_blocks:
  assumes "text' bg \<noteq> []" and "distinct is" and "j \<in> set is"
    and "nodeAt d (p @ [j]) = Some (Element a cs)"
  shows "\<exists>cs'. nodeAt (foldl (\<lambda>d b. handleBackground env bg b d) d (map (\<lambda>i. p @ [i]) is))
                  (p @ [j]) =
           Some (Element (a\<lparr>styleBackground :=
                   assignedBackground env (backgroundValue (text' bg)) (styleBackground a)\<rparr>) cs')"
  using foldl_handleBackground [OF assms, of env] by (simp add: foldl_map)

lemma blockContentKeys_effect:
  assumes r: "blockContentKeys env M section s3 = Done s4"
    and b: "b \<in> set (blockContents (fst s3) section)"
  shows "\<exists>a cs a' cs'.
           nodeAt (fst s3) b = Some (Element a cs) \<and>
           nodeAt (fst s4) b = Some (Element a' cs') \<and>
           blockEffect env M a a' cs'"
proof -
  from blockContents_paths [of "fst s3" "section"] obtain "is" where
    bl: "blockContents (fst s3) section = map (\<lambda>i. section @ [i]) is" and
    di: "distinct is" and
    el: "\<forall>i \<in> set is. \<exists>a cs. nodeAt (fst s3) (section @ [i]) = Some (Element a cs)"
    by blast
  from b bl obtain j where j: "j \<in> set is" and bj: "b = section @ [j]" by auto
  from el j obtain a cs where n0: "nodeAt (fst s3) (section @ [j]) = Some (Element a cs)" by blast
  from b have ne: "blockContents (fst s3) section \<noteq> []" by auto
  let ?blocks = "map (\<lambda>i. section @ [i]) is"
  let ?sb = "if textOf M ''background-block'' = [] then styleBackground a
             else assignedBackground env (backgroundValue (textOf M ''background-block''))
                    (styleBackground a)"
  define s1 where "s1 = (case M ''background-block'' of
                     None \<Rightarrow> s3
                   | Some background \<Rightarrow>
                       if text' background \<noteq> []
                       then (foldl (\<lambda>d blockContent. handleBackground env background blockContent d)
                               (fst s3) ?blocks, snd s3)
                       else s3)"
  have n1: "\<exists>cs1. nodeAt (fst s1) (section @ [j]) = Some (Element (a\<lparr>styleBackground := ?sb\<rparr>) cs1)"
  proof (cases "textOf M ''background-block'' = []")
    case True
    then have "s1 = s3" by (auto simp: s1_def textOf_def split: option.splits)
    with True n0 show ?thesis by simp
  next
    case False
    then obtain bg where bg: "M ''background-block'' = Some bg" and t: "text' bg \<noteq> []"
      and te: "textOf M ''background-block'' = text' bg"
      by (auto simp: textOf_def split: option.splits)
    from foldl_handleBackground_blocks [OF t di j n0, of env]
    show ?thesis using False by (simp add: s1_def bg t te)
  qed
  then obtain cs1 where
    n1: "nodeAt (fst s1) (section @ [j]) = Some (Element (a\<lparr>styleBackground := ?sb\<rparr>) cs1)"
    by blast
  let ?desk = "imageOf M ''background-block-image''"
  let ?mob = "imageOf M ''background-block-image-mobile''"
  let ?img = "if ?desk \<noteq> None \<or> ?mob \<noteq> None
              then forEachE (handleBackgroundImages env ?desk ?mob) ?blocks s1 else Done s1"
  let ?fit = "\<lambda>s2. if textOf M ''object-fit-block'' \<noteq> []
                     then foldl (\<lambda>d blockContent.
                            updateAt (setData ''objectFit'' (textOf M ''object-fit-block''))
                              blockContent d) (fst s2) ?blocks
                     else fst s2"
  let ?pos = "\<lambda>s2. if textOf M ''object-position-block'' \<noteq> []
                     then foldl (\<lambda>d blockContent.
                            updateAt (setData ''objectPosition''
                              (textOf M ''object-position-block'')) blockContent d) (?fit s2) ?blocks
                     else ?fit s2"
  have unf: "blockContentKeys env M section s3 = andThen ?img (\<lambda>s2. Done (?pos s2, snd s2))"
    using ne unfolding blockContentKeys_def Let_def s1_def bl by simp
  with r obtain s2 where img: "?img = Done s2" and s4: "s4 = (?pos s2, snd s2)"
    by (cases ?img) auto
  have n2: "\<exists>a2 cs2. nodeAt (fst s2) (section @ [j]) = Some (Element a2 cs2) \<and>
              styleBackground a2 = ?sb \<and>
              (case ?desk of
                 None \<Rightarrow> True
               | Some desktop \<Rightarrow>
                   (\<exists>pic rest. newPicture env desktop ?mob = Inr pic \<and> cs2 = pic # rest \<and>
                      ''has-bg-images'' \<in> set (tokens (className a2))))"
  proof (cases ?desk)
    case None
    with img have "s2 = s1" by (simp add: forEachE_images_None split: if_splits)
    with n1 None show ?thesis by simp
  next
    case (Some desktop)
    with img have fe: "forEachE (handleBackgroundImages env (Some desktop) ?mob) ?blocks s1 = Done s2"
      by simp
    from j have nb: "?blocks \<noteq> []" by auto
    from fe nb obtain pic where np: "newPicture env desktop ?mob = Inr pic" and
      s2: "fst s2 = foldl (\<lambda>d b. updateAt (\<lambda>n. prependNode (addTokens [''has-bg-images''] n) pic) b d)
                  (fst s1) ?blocks"
      by (cases "newPicture env desktop ?mob") (auto simp: forEachE_images_Some)
    from attach_Element [of "a\<lparr>styleBackground := ?sb\<rparr>" cs1 pic] obtain c where
      c: "prependNode (addTokens [''has-bg-images''] (Element (a\<lparr>styleBackground := ?sb\<rparr>) cs1)) pic =
            Element (a\<lparr>styleBackground := ?sb, className := c\<rparr>) (pic # cs1)" and
      t: "set (tokens c) = set (tokens (className (a\<lparr>styleBackground := ?sb\<rparr>))) \<union> {''has-bg-images''}"
      by blast
    have "nodeAt (fst s2) (section @ [j]) =
        Some (Element (a\<lparr>styleBackground := ?sb, className := c\<rparr>) (pic # cs1))"
      unfolding s2 using foldl_updateAt_blocks [OF di j] n1 c by simp
    moreover have "''has-bg-images'' \<in> set (tokens c)" using t by simp
    ultimately show ?thesis using Some np by simp
  qed
  then obtain a2 cs2 where
    n2: "nodeAt (fst s2) (section @ [j]) = Some (Element a2 cs2)" and
    sb2: "styleBackground a2 = ?sb" and
    pic2: "case ?desk of
             None \<Rightarrow> True
           | Some desktop \<Rightarrow>
               (\<exists>pic rest. newPicture env desktop ?mob = Inr pic \<and> cs2 = pic # rest \<and>
                  ''has-bg-images'' \<in> set (tokens (className a2)))"
    by blast
  let ?ds3 = "if textOf M ''object-fit-block'' \<noteq> []
              then objSet (dataset a2) ''objectFit'' (textOf M ''object-fit-block'')
              else dataset a2"
  have n3: "nodeAt (?fit s2) (section @ [j]) = Some (Element (a2\<lparr>dataset := ?ds3\<rparr>) cs2)"
    using foldl_updateAt_blocks [OF di j] n2 by simp
  let ?ds4 = "if textOf M ''object-position-block'' \<noteq> []
              then objSet ?ds3 ''objectPosition'' (textOf M ''object-position-block'')
              else ?ds3"
  have n4: "nodeAt (?pos s2) (section @ [j]) = Some (Element (a2\<lparr>dataset := ?ds4\<rparr>) cs2)"
  proof (cases "textOf M ''object-position-block'' \<noteq> []")
    case True
    then have "nodeAt (?pos s2) (section @ [j]) =
        map_option (setData ''objectPosition'' (textOf M ''object-position-block''))
          (nodeAt (?fit s2) (section @ [j]))"
      using foldl_updateAt_blocks [OF di j] by simp
    with True show ?thesis unfolding n3 by simp
  next
    case False
    with n3 show ?thesis by simp
  qed
  have fit: "map_of ?ds4 ''objectFit'' = Some (textOf M ''object-fit-block'')"
    if "textOf M ''object-fit-block'' \<noteq> []"
    using that objGet_objSet [of "dataset a2" "''objectFit''" "textOf M ''object-fit-block''" "''objectFit''"]
      objGet_objSet [of ?ds3 "''objectPosition''" "textOf M ''object-position-block''" "''objectFit''"]
    by (simp add: objGet_def)
  have pos: "map_of ?ds4 ''objectPosition'' = Some (textOf M ''object-position-block'')"
    if "textOf M ''object-position-block'' \<noteq> []"
    using that
      objGet_objSet [of ?ds3 "''objectPosition''" "textOf M ''object-position-block''" "''objectPosition''"]
    by (simp add: objGet_def)
  have "nodeAt (fst s4) b = Some (Element (a2\<lparr>dataset := ?ds4\<rparr>) cs2)"
    using n4 by (simp add: s4 bj)
  moreover have "nodeAt (fst s3) b = Some (Element a cs)" using n0 by (simp add: bj)
  moreover have "blockEffect env M a (a2\<lparr>dataset := ?ds4\<rparr>) cs2"
  proof -
    have "pictureEffect env ?desk ?mob (a2\<lparr>dataset := ?ds4\<rparr>) cs2"
      using pic2 by (auto simp: pictureEffect_def split: option.splits)
    moreover have "styleBackground (a2\<lparr>dataset := ?ds4\<rparr>) = ?sb" using sb2 by simp
    moreover have "textOf M ''object-fit-block'' \<noteq> [] \<longrightarrow>
        map_of (dataset (a2\<lparr>dataset := ?ds4\<rparr>)) ''objectFit'' = Some (textOf M ''object-fit-block'')"
      using fit by simp
    moreover have "textOf M ''object-position-block'' \<noteq> [] \<longrightarrow>
        map_of (dataset (a2\<lparr>dataset := ?ds4\<rparr>)) ''objectPosition'' =
          Some (textOf M ''object-position-block'')"
      using pos by simp
    ultimately show ?thesis unfolding blockEffect_def by blast
  qed
  ultimately show ?thesis by blast
qed

subsection \<open>The handler as a whole\<close>

lemma closest_Some:
  assumes "closest doc p name = Some q"
  shows "\<exists>a cs. nodeAt doc q = Some (Element a cs) \<and> contains (Element a cs) name"
proof -
  from assms have "hasClassAt doc name q"
    unfolding closest_def find_Some_iff by blast
  then obtain n where n: "nodeAt doc q = Some n" and c: "contains n name"
    by (auto simp: hasClassAt_def split: option.splits)
  from c obtain a cs where "n = Element a cs"
    by (cases n) (simp_all add: contains_def classList_def)
  with n c show ?thesis by blast
qed

lemma handleSectionMetadata_apply:
  assumes "nodeAt doc p = Some el" and "closest doc p ''section'' = Some section"
  shows "handleSectionMetadata env doc p =
           (case applyMetadata env (lastOccurrence env (childNodes el))
                   (objKeys (getSectionMetadata env el)) section (doc, p) of
              Done s \<Rightarrow> Done (fst s)
            | Threw e s \<Rightarrow> Threw e (fst s))"
  using assms by (simp add: handleSectionMetadata_def getSectionMetadata_get)

lemma applyMetadata_Done:
  assumes "applyMetadata env M keys section (doc, p) = Done s"
  shows "\<exists>d1 d2 s3 s4.
           sectionKeys env M section doc = Inr d1 \<and>
           dataAttributes env M keys section d1 = Done d2 \<and>
           sectionImages env M section (d2, p) = Done s3 \<and>
           blockContentKeys env M section s3 = Done s4 \<and>
           s = (removeAt (snd s4) (fst s4), snd s4)"
proof -
  from assms obtain d1 where 1: "sectionKeys env M section doc = Inr d1"
    and a: "afterSpecialKeys env M keys section (d1, p) = Done s"
    by (cases "sectionKeys env M section doc") (simp_all add: applyMetadata_def)
  from a obtain d2 where 2: "dataAttributes env M keys section d1 = Done d2"
    and b: "andThen (sectionImages env M section (d2, p))
              (\<lambda>s1. andThen (blockContentKeys env M section s1)
                 (\<lambda>s2. Done (removeAt (snd s2) (fst s2), snd s2))) = Done s"
    by (cases "dataAttributes env M keys section d1") (simp_all add: afterSpecialKeys_def)
  from b obtain s3 where 3: "sectionImages env M section (d2, p) = Done s3"
    and c: "andThen (blockContentKeys env M section s3)
                 (\<lambda>s2. Done (removeAt (snd s2) (fst s2), snd s2)) = Done s"
    by (cases "sectionImages env M section (d2, p)") simp_all
  from c obtain s4 where 4: "blockContentKeys env M section s3 = Done s4"
    and d: "s = (removeAt (snd s4) (fst s4), snd s4)"
    by (cases "blockContentKeys env M section s3") auto
  from 1 2 3 4 d show ?thesis by blast
qed

lemma handler_effects:
  assumes el: "nodeAt doc p = Some el" and cl: "closest doc p ''section'' = Some section"
    and dn: "handleSectionMetadata env doc p = Done doc'"
  shows "\<exists>a cs a1 cs1 d1 ds d2 a3 cs3 s3 s4.
           nodeAt doc section = Some (Element a cs) \<and>
           sectionKeys env (lastOccurrence env (childNodes el)) section doc = Inr d1 \<and>
           nodeAt d1 section = Some (Element a1 cs1) \<and>
           sectionKeysEffect env (lastOccurrence env (childNodes el)) a a1 \<and>
           dataAttributes env (lastOccurrence env (childNodes el))
             (objKeys (getSectionMetadata env el)) section d1 = Done d2 \<and>
           nodeAt d2 section = Some (Element (a1\<lparr>dataset := ds\<rparr>) cs1) \<and>
           dataEffect env (lastOccurrence env (childNodes el))
             (objKeys (getSectionMetadata env el)) ds \<and>
           sectionImages env (lastOccurrence env (childNodes el)) section (d2, p) = Done s3 \<and>
           nodeAt (fst s3) section = Some (Element a3 cs3) \<and>
           pictureEffect env (imageOf (lastOccurrence env (childNodes el)) ''background-image'')
             (imageOf (lastOccurrence env (childNodes el)) ''background-image-mobile'') a3 cs3 \<and>
           blockContentKeys env (lastOccurrence env (childNodes el)) section s3 = Done s4 \<and>
           (\<forall>b \<in> set (blockContents (fst s3) section).
              \<exists>ab csb ab' csb'.
                nodeAt (fst s3) b = Some (Element ab csb) \<and>
                nodeAt (fst s4) b = Some (Element ab' csb') \<and>
                blockEffect env (lastOccurrence env (childNodes el)) ab ab' csb') \<and>
           doc' = removeAt (snd s4) (fst s4)"
proof -
  let ?M = "lastOccurrence env (childNodes el)"
  let ?keys = "objKeys (getSectionMetadata env el)"
  from closest_Some [OF cl] obtain a cs where n: "nodeAt doc section = Some (Element a cs)"
    by blast
  from dn handleSectionMetadata_apply [OF el cl, of env]
  obtain s where ap: "applyMetadata env ?M ?keys section (doc, p) = Done s" and s: "doc' = fst s"
    by (cases "applyMetadata env ?M ?keys section (doc, p)") auto
  from applyMetadata_Done [OF ap] obtain d1 d2 s3 s4 where
    1: "sectionKeys env ?M section doc = Inr d1" and
    2: "dataAttributes env ?M ?keys section d1 = Done d2" and
    3: "sectionImages env ?M section (d2, p) = Done s3" and
    4: "blockContentKeys env ?M section s3 = Done s4" and
    5: "s = (removeAt (snd s4) (fst s4), snd s4)"
    by blast
  from sectionKeys_effect [OF n 1] obtain c cs1 where
    d1: "d1 = updateAt (\<lambda>_. Element (a\<lparr>className := c, styleBackground :=
                    (if textOf ?M ''background'' = [] then styleBackground a
                     else assignedBackground env (backgroundValue (textOf ?M ''background''))
                            (styleBackground a))\<rparr>) cs1) section doc" and
    c: "set (tokens c) = set (tokens (className a)) \<union> set (sectionClasses ?M)"
    by blast
  define a1 where "a1 = a\<lparr>className := c, styleBackground :=
                    (if textOf ?M ''background'' = [] then styleBackground a
                     else assignedBackground env (backgroundValue (textOf ?M ''background''))
                            (styleBackground a))\<rparr>"
  have n1: "nodeAt d1 section = Some (Element a1 cs1)"
    unfolding d1 a1_def by (simp add: nodeAt_updateAt_same n)
  have e1: "sectionKeysEffect env ?M a a1"
    using c by (simp add: sectionKeysEffect_def a1_def)
  from dataAttributes_effect [OF n1 2] obtain ds where
    d2: "d2 = updateAt (\<lambda>_. Element (a1\<lparr>dataset := ds\<rparr>) cs1) section d1" and
    e2: "dataEffect env ?M ?keys ds"
    unfolding dataEffect_def by blast
  have n2: "nodeAt d2 section = Some (Element (a1\<lparr>dataset := ds\<rparr>) cs1)"
    unfolding d2 by (simp add: nodeAt_updateAt_same n1)
  have "\<exists>a3 cs3. nodeAt (fst s3) section = Some (Element a3 cs3) \<and>
          pictureEffect env (imageOf ?M ''background-image'')
            (imageOf ?M ''background-image-mobile'') a3 cs3"
  proof (cases "imageOf ?M ''background-image''")
    case None
    with sectionImages_effect [OF n2 3] n2 show ?thesis
      by (simp add: pictureEffect_def)
  next
    case (Some desktop)
    with sectionImages_effect [OF n2 3] obtain pic c' where
      np: "newPicture env desktop (imageOf ?M ''background-image-mobile'') = Inr pic" and
      s3: "s3 = (updateAt (\<lambda>_. Element (a1\<lparr>dataset := ds, className := c'\<rparr>) (pic # cs1))
                   section d2, shiftBelow section p)" and
      t: "set (tokens c') = set (tokens (className (a1\<lparr>dataset := ds\<rparr>))) \<union> {''has-bg-images''}"
      by auto
    have "nodeAt (fst s3) section =
        Some (Element (a1\<lparr>dataset := ds, className := c'\<rparr>) (pic # cs1))"
      unfolding s3 by (simp add: nodeAt_updateAt_same n2)
    moreover have "pictureEffect env (imageOf ?M ''background-image'')
            (imageOf ?M ''background-image-mobile'') (a1\<lparr>dataset := ds, className := c'\<rparr>)
            (pic # cs1)"
      using Some np t by (simp add: pictureEffect_def)
    ultimately show ?thesis by blast
  qed
  then obtain a3 cs3 where n3: "nodeAt (fst s3) section = Some (Element a3 cs3)" and
    e3: "pictureEffect env (imageOf ?M ''background-image'')
            (imageOf ?M ''background-image-mobile'') a3 cs3"
    by blast
  have e4: "\<forall>b \<in> set (blockContents (fst s3) section).
              \<exists>ab csb ab' csb'.
                nodeAt (fst s3) b = Some (Element ab csb) \<and>
                nodeAt (fst s4) b = Some (Element ab' csb') \<and>
                blockEffect env ?M ab ab' csb'"
  proof
    fix b
    assume "b \<in> set (blockContents (fst s3) section)"
    from blockContentKeys_effect [OF 4 this]
    show "\<exists>ab csb ab' csb'.
                nodeAt (fst s3) b = Some (Element ab csb) \<and>
                nodeAt (fst s4) b = Some (Element ab' csb') \<and>
                blockEffect env ?M ab ab' csb'" .
  qed
  have 6: "doc' = removeAt (snd s4) (fst s4)" using s 5 by simp
  from n 1 n1 e1 2 n2 e2 3 n3 e3 4 e4 6 show ?thesis by blast
qed

subsection \<open>Claims about the metadata\<close>

text \<open>
  C4 as stated fails at four sections whose table has the key \<^verbatim>\<open>background\<close> with a non-empty
  value.  With \<^verbatim>\<open>color-token-accent\<close> the inline background is \<^verbatim>\<open>var(--color-accent)\<close>, the computed
  background is the unset one and no scheme is derived: the paragraph has no scheme class
  afterwards and the \<^verbatim>\<open>DIV\<close> keeps its old one.  With \<^verbatim>\<open>#0a0a0a\<close> the inline background reads
  \<^verbatim>\<open>rgb(10, 10, 10)\<close>, not the raw value.  With \<^verbatim>\<open>banana\<close> the browser rejects the value and the
  inline background stays empty.  With the style \<^verbatim>\<open>a, , b\<close> before it, the awaited style step
  throws on the empty token and the background is never assigned.
\<close>

theorem handleSectionMetadata_background_counterexample:
  "objGet (getSectionMetadata brandEnv
      (elem ''DIV'' ''section-metadata'' [metaRow ''background'' [TextNode ''color-token-accent'']]))
      ''background'' =
     Some \<lparr>content = elem ''DIV'' [] [TextNode ''color-token-accent''],
           text' = ''color-token-accent''\<rparr> \<and>
   handleSectionMetadata brandEnv
       (pageWith [metaRow ''background'' [TextNode ''color-token-accent'']]) [0, 2] =
     Done (pageAfter ''var(--color-accent)''
             [elem ''P'' [] [], elem ''DIV'' ''hero light-scheme'' []]) \<and>
   classList (elem ''P'' [] []) = [] \<and>
   handleSectionMetadata brandEnv (pageWith [metaRow ''background'' [TextNode ''#0a0a0a'']]) [0, 2] =
     Done (pageAfter ''rgb(10, 10, 10)''
             [elem ''P'' ''dark-scheme'' [], elem ''DIV'' ''hero dark-scheme'' []]) \<and>
   handleSectionMetadata brandEnv (pageWith [metaRow ''background'' [TextNode ''banana'']]) [0, 2] =
     Done (pageAfter [] [elem ''P'' [] [], elem ''DIV'' ''hero light-scheme'' []]) \<and>
   handleSectionMetadata brandEnv
       (pageWith [metaRow ''style'' [TextNode ''a, , b''],
                  metaRow ''background'' [TextNode ''color-token-brand'']]) [0, 2] =
     Threw SyntaxError
       (pageWith [metaRow ''style'' [TextNode ''a, , b''],
                  metaRow ''background'' [TextNode ''color-token-brand'']])"
  by code_simp

text \<open>
  C4 (as amended).  Let the metadata element \<^verbatim>\<open>el\<close> lie in the section \<open>section\<close>, let its table
  have the key \<^verbatim>\<open>background\<close> with a non-empty text, and let the tokens of the key \<^verbatim>\<open>style\<close>, if
  there are any, be class tokens (so that the awaited style step does not throw).  The value
  assigned to the inline background is \<^verbatim>\<open>var(--color\<close>, what follows \<^verbatim>\<open>color-token\<close> and \<^verbatim>\<open>)\<close>
  when the text starts with \<^verbatim>\<open>color-token\<close>, and the text itself otherwise.  The special keys
  of the section end in a document \<open>doc1\<close>, from which the handler goes on.  In \<open>doc1\<close> the inline
  background of the section reads as the browser serializes the assigned value, or as
  before when the browser rejects the value.  The scheme is read when the section has its
  new attributes and its children are as before: when the computed background has an
  \<^verbatim>\<open>rgb(r,g,b)\<close> form, every element child of the section has lost \<^verbatim>\<open>light-scheme\<close> and
  \<^verbatim>\<open>dark-scheme\<close> and has the derived scheme as its last class; when it has no such form, the
  children are as they were.
\<close>

theorem handleSectionMetadata_background:
  "nodeAt doc p = Some el \<and> closest doc p ''section'' = Some section \<and>
   objGet (getSectionMetadata env el) ''background'' = Some background \<and>
   text' background \<noteq> [] \<and>
   (textOf (objGet (getSectionMetadata env el)) ''style'' \<noteq> [] \<longrightarrow>
      (\<forall>t \<in> set (styles (textOf (objGet (getSectionMetadata env el)) ''style'')). validToken t))
   \<longrightarrow>
     (startsWith (text' background) ''color-token'' \<longrightarrow>
        backgroundValue (text' background) = ''var(--color'' @ drop 11 (text' background) @ '')'') \<and>
     (\<not> startsWith (text' background) ''color-token'' \<longrightarrow>
        backgroundValue (text' background) = text' background) \<and>
     (\<exists>a cs a1 cs1 doc1.
        nodeAt doc section = Some (Element a cs) \<and>
        sectionKeys env (objGet (getSectionMetadata env el)) section doc = Inr doc1 \<and>
        handleSectionMetadata env doc p =
          (case afterSpecialKeys env (objGet (getSectionMetadata env el))
                  (objKeys (getSectionMetadata env el)) section (doc1, p) of
             Done s \<Rightarrow> Done (fst s)
           | Threw e s \<Rightarrow> Threw e (fst s)) \<and>
        nodeAt doc1 section = Some (Element a1 cs1) \<and>
        styleBackground a1 =
          assignedBackground env (backgroundValue (text' background)) (styleBackground a) \<and>
        (case getColorScheme env (updateAt (\<lambda>_. Element a1 cs) section doc) section of
           None \<Rightarrow> cs1 = cs
         | Some scheme \<Rightarrow> schemeChildren scheme cs cs1))"
proof (intro impI)
  let ?M = "objGet (getSectionMetadata env el)"
  assume h: "nodeAt doc p = Some el \<and> closest doc p ''section'' = Some section \<and>
   objGet (getSectionMetadata env el) ''background'' = Some background \<and>
   text' background \<noteq> [] \<and>
   (textOf ?M ''style'' \<noteq> [] \<longrightarrow> (\<forall>t \<in> set (styles (textOf ?M ''style'')). validToken t))"
  then have el: "nodeAt doc p = Some el" and cl: "closest doc p ''section'' = Some section"
    and bg: "?M ''background'' = Some background" and t: "text' background \<noteq> []"
    and st: "textOf ?M ''style'' \<noteq> [] \<longrightarrow> (\<forall>t \<in> set (styles (textOf ?M ''style'')). validToken t)"
    by simp_all
  from bg t have te: "textOf ?M ''background'' = text' background" and tn: "textOf ?M ''background'' \<noteq> []"
    by (simp_all add: textOf_def)
  have 1: "startsWith (text' background) ''color-token'' \<longrightarrow>
        backgroundValue (text' background) = ''var(--color'' @ drop 11 (text' background) @ '')''"
    by (simp add: backgroundValue_token)
  have 2: "\<not> startsWith (text' background) ''color-token'' \<longrightarrow>
        backgroundValue (text' background) = text' background"
    by (simp add: backgroundValue_def)
  from closest_Some [OF cl] obtain a cs where n: "nodeAt doc section = Some (Element a cs)"
    by blast
  obtain doc1 where sk: "sectionKeys env ?M section doc = Inr doc1"
  proof (cases "sectionKeys env ?M section doc")
    case (Inl e)
    then have "textOf ?M ''style'' \<noteq> []" and v: "validateTokens (styles (textOf ?M ''style'')) = Some e"
      unfolding sectionKeys_throws [OF n] by simp_all
    with st have "\<forall>t \<in> set (styles (textOf ?M ''style'')). validToken t" by simp
    then have "validateTokens (styles (textOf ?M ''style'')) = None"
      by (simp only: validateTokens_valid)
    with v show ?thesis by simp
  next
    case (Inr d)
    with that show ?thesis by blast
  qed
  from sectionKeys_effect [OF n sk] tn obtain c cs1 where
    d1: "doc1 = updateAt (\<lambda>_. Element (a\<lparr>className := c, styleBackground :=
           assignedBackground env (backgroundValue (textOf ?M ''background'')) (styleBackground a)\<rparr>)
           cs1) section doc" and
    k: "case getColorScheme env
               (updateAt (\<lambda>_. Element (a\<lparr>className := c, styleBackground :=
                  assignedBackground env (backgroundValue (textOf ?M ''background''))
                    (styleBackground a)\<rparr>) cs) section doc) section of
          None \<Rightarrow> cs1 = cs
        | Some scheme \<Rightarrow> schemeChildren scheme cs cs1"
    by auto
  define a1 where "a1 = a\<lparr>className := c, styleBackground :=
           assignedBackground env (backgroundValue (text' background)) (styleBackground a)\<rparr>"
  have n1: "nodeAt doc1 section = Some (Element a1 cs1)"
    unfolding d1 a1_def te by (simp add: nodeAt_updateAt_same n)
  have sb: "styleBackground a1 =
      assignedBackground env (backgroundValue (text' background)) (styleBackground a)"
    by (simp add: a1_def)
  have k1: "case getColorScheme env (updateAt (\<lambda>_. Element a1 cs) section doc) section of
           None \<Rightarrow> cs1 = cs
         | Some scheme \<Rightarrow> schemeChildren scheme cs cs1"
    using k unfolding a1_def te .
  have hs: "handleSectionMetadata env doc p =
          (case afterSpecialKeys env ?M (objKeys (getSectionMetadata env el)) section (doc1, p) of
             Done s \<Rightarrow> Done (fst s)
           | Threw e s \<Rightarrow> Threw e (fst s))"
    by (simp add: handleSectionMetadata_def Let_def el cl applyMetadata_def sk)
  from n sk hs n1 sb k1
  have 3: "\<exists>a cs a1 cs1 doc1.
        nodeAt doc section = Some (Element a cs) \<and>
        sectionKeys env ?M section doc = Inr doc1 \<and>
        handleSectionMetadata env doc p =
          (case afterSpecialKeys env ?M (objKeys (getSectionMetadata env el)) section (doc1, p) of
             Done s \<Rightarrow> Done (fst s)
           | Threw e s \<Rightarrow> Threw e (fst s)) \<and>
        nodeAt doc1 section = Some (Element a1 cs1) \<and>
        styleBackground a1 =
          assignedBackground env (backgroundValue (text' background)) (styleBackground a) \<and>
        (case getColorScheme env (updateAt (\<lambda>_. Element a1 cs) section doc) section of
           None \<Rightarrow> cs1 = cs
         | Some scheme \<Rightarrow> schemeChildren scheme cs cs1)"
    by blast
  from 1 2 3 show "(startsWith (text' background) ''color-token'' \<longrightarrow>
        backgroundValue (text' background) = ''var(--color'' @ drop 11 (text' background) @ '')'') \<and>
     (\<not> startsWith (text' background) ''color-token'' \<longrightarrow>
        backgroundValue (text' background) = text' background) \<and>
     (\<exists>a cs a1 cs1 doc1.
        nodeAt doc section = Some (Element a cs) \<and>
        sectionKeys env ?M section doc = Inr doc1 \<and>
        handleSectionMetadata env doc p =
          (case afterSpecialKeys env ?M (objKeys (getSectionMetadata env el)) section (doc1, p) of
             Done s \<Rightarrow> Done (fst s)
           | Threw e s \<Rightarrow> Threw e (fst s)) \<and>
        nodeAt doc1 section = Some (Element a1 cs1) \<and>
        styleBackground a1 =
          assignedBackground env (backgroundValue (text' background)) (styleBackground a) \<and>
        (case getColorScheme env (updateAt (\<lambda>_. Element a1 cs) section doc) section of
           None \<Rightarrow> cs1 = cs
         | Some scheme \<Rightarrow> schemeChildren scheme cs cs1))"
    by (intro conjI)
qed

text \<open>
  Witness for C4: the table has the one row \<^verbatim>\<open>background | color-token-brand\<close>.  The value
  assigned is \<^verbatim>\<open>var(--color-brand)\<close>, the computed background is black, and the element
  children of the section, the metadata element among them, end with \<^verbatim>\<open>dark-scheme\<close>, the
  \<^verbatim>\<open>DIV\<close> losing its \<^verbatim>\<open>light-scheme\<close>; the handler then removes the metadata element.
\<close>

theorem handleSectionMetadata_background_witness:
  "nodeAt brandPage [0, 2] = Some brandTable \<and>
   closest brandPage [0, 2] ''section'' = Some [0] \<and>
   objGet (getSectionMetadata brandEnv brandTable) ''background'' = Some brandEntry \<and>
   text' brandEntry = ''color-token-brand'' \<and>
   textOf (objGet (getSectionMetadata brandEnv brandTable)) ''style'' = [] \<and>
   backgroundValue (text' brandEntry) = ''var(--color-brand)'' \<and>
   (\<exists>a cs a1 cs1 doc1.
      nodeAt brandPage [0] = Some (Element a cs) \<and>
      sectionKeys brandEnv (objGet (getSectionMetadata brandEnv brandTable)) [0] brandPage =
        Inr doc1 \<and>
      handleSectionMetadata brandEnv brandPage [0, 2] =
        (case afterSpecialKeys brandEnv (objGet (getSectionMetadata brandEnv brandTable))
                (objKeys (getSectionMetadata brandEnv brandTable)) [0] (doc1, [0, 2]) of
           Done s \<Rightarrow> Done (fst s)
         | Threw e s \<Rightarrow> Threw e (fst s)) \<and>
      nodeAt doc1 [0] = Some (Element a1 cs1) \<and>
      styleBackground a1 =
        assignedBackground brandEnv (backgroundValue (text' brandEntry)) (styleBackground a) \<and>
      (case getColorScheme brandEnv (updateAt (\<lambda>_. Element a1 cs) [0] brandPage) [0] of
         None \<Rightarrow> cs1 = cs
       | Some scheme \<Rightarrow> schemeChildren scheme cs cs1)) \<and>
   sectionKeys brandEnv (objGet (getSectionMetadata brandEnv brandTable)) [0] brandPage =
     Inr (pageAfter ''var(--color-brand)''
            [elem ''P'' ''dark-scheme'' [], elem ''DIV'' ''hero dark-scheme'' [],
             elem ''DIV'' ''section-metadata dark-scheme''
               [metaRow ''background'' [TextNode ''color-token-brand'']]]) \<and>
   handleSectionMetadata brandEnv brandPage [0, 2] =
     Done (pageAfter ''var(--color-brand)''
             [elem ''P'' ''dark-scheme'' [], elem ''DIV'' ''hero dark-scheme'' []])"
proof -
  have 1: "nodeAt brandPage [0, 2] = Some brandTable" by code_simp
  have 2: "closest brandPage [0, 2] ''section'' = Some [0]" by code_simp
  have 3: "objGet (getSectionMetadata brandEnv brandTable) ''background'' = Some brandEntry"
    by code_simp
  have 4: "text' brandEntry = ''color-token-brand''" by code_simp
  have 5: "textOf (objGet (getSectionMetadata brandEnv brandTable)) ''style'' = []" by code_simp
  have 6: "backgroundValue (text' brandEntry) = ''var(--color-brand)''" by code_simp
  have h: "nodeAt brandPage [0, 2] = Some brandTable \<and>
      closest brandPage [0, 2] ''section'' = Some [0] \<and>
      objGet (getSectionMetadata brandEnv brandTable) ''background'' = Some brandEntry \<and>
      text' brandEntry \<noteq> [] \<and>
      (textOf (objGet (getSectionMetadata brandEnv brandTable)) ''style'' \<noteq> [] \<longrightarrow>
         (\<forall>t \<in> set (styles (textOf (objGet (getSectionMetadata brandEnv brandTable)) ''style'')).
            validToken t))"
  proof (intro conjI impI)
    show "nodeAt brandPage [0, 2] = Some brandTable" by (rule 1)
    show "closest brandPage [0, 2] ''section'' = Some [0]" by (rule 2)
    show "objGet (getSectionMetadata brandEnv brandTable) ''background'' = Some brandEntry"
      by (rule 3)
    show "text' brandEntry \<noteq> []" unfolding 4 by simp
  next
    assume "textOf (objGet (getSectionMetadata brandEnv brandTable)) ''style'' \<noteq> []"
    with 5 show "\<forall>t \<in> set (styles (textOf (objGet (getSectionMetadata brandEnv brandTable))
        ''style'')). validToken t"
      by simp
  qed
  note T = handleSectionMetadata_background
    [of brandPage "[0, 2]" brandTable "[0]" brandEnv brandEntry, THEN mp, OF h]
  have 7: "sectionKeys brandEnv (objGet (getSectionMetadata brandEnv brandTable)) [0] brandPage =
     Inr (pageAfter ''var(--color-brand)''
            [elem ''P'' ''dark-scheme'' [], elem ''DIV'' ''hero dark-scheme'' [],
             elem ''DIV'' ''section-metadata dark-scheme''
               [metaRow ''background'' [TextNode ''color-token-brand'']]])"
    by code_simp
  have 8: "handleSectionMetadata brandEnv brandPage [0, 2] =
     Done (pageAfter ''var(--color-brand)''
             [elem ''P'' ''dark-scheme'' [], elem ''DIV'' ''hero dark-scheme'' []])"
    by code_simp
  show ?thesis
    by (rule conjI [OF 1 conjI [OF 2 conjI [OF 3 conjI [OF 4 conjI [OF 5 conjI [OF 6
          conjI [OF T [THEN conjunct2, THEN conjunct2] conjI [OF 7 8]]]]]]]])
qed

text \<open>
  C5.  For a metadata element \<^verbatim>\<open>el\<close> and a key \<open>k\<close>: when a row of \<^verbatim>\<open>el\<close> defines \<open>k\<close> (an element
  with two or more cells whose trimmed, lower-cased first cell is the non-empty \<open>k\<close>) and no
  later row defines \<open>k\<close>, the parsed metadata maps \<open>k\<close> to the content and text of that row,
  whatever the earlier rows say; \<open>k\<close> has at most one entry; and the lookup of the parsed
  metadata is the last occurrence for every key.  The handler applies the last
  occurrences.  When it ends without exception, its parts have run one after the other
  on the last occurrences and the document is the last one without \<^verbatim>\<open>el\<close>: the section of
  \<open>d1\<close> has gained the class tokens and the inline background that the last values ask for;
  the section of \<open>d2\<close> has the data attributes of the last texts; the section of \<open>s3\<close> has the
  picture of the last images; and every \<^verbatim>\<open>block-content\<close> group of \<open>s4\<close> has the inline
  background, the data attributes and the picture of the last values.
\<close>

theorem getSectionMetadata_last_wins:
  "(\<forall>pre r post.
      childNodes el = pre @ r # post \<and> definesKey env k r \<and>
      (\<forall>r' \<in> set post. \<not> definesKey env k r')
      \<longrightarrow> objGet (getSectionMetadata env el) k = Some (rowValue env r)) \<and>
   length (filter (\<lambda>kv. fst kv = k) (getSectionMetadata env el)) \<le> 1 \<and>
   objGet (getSectionMetadata env el) = lastOccurrence env (childNodes el) \<and>
   (nodeAt doc p = Some el \<and> closest doc p ''section'' = Some section \<longrightarrow>
      handleSectionMetadata env doc p =
        (case applyMetadata env (lastOccurrence env (childNodes el))
                (objKeys (getSectionMetadata env el)) section (doc, p) of
           Done s \<Rightarrow> Done (fst s)
         | Threw e s \<Rightarrow> Threw e (fst s))) \<and>
   (nodeAt doc p = Some el \<and> closest doc p ''section'' = Some section \<and>
    handleSectionMetadata env doc p = Done doc' \<longrightarrow>
      (\<exists>a cs a1 cs1 d1 ds d2 a3 cs3 s3 s4.
         nodeAt doc section = Some (Element a cs) \<and>
         sectionKeys env (lastOccurrence env (childNodes el)) section doc = Inr d1 \<and>
         nodeAt d1 section = Some (Element a1 cs1) \<and>
         sectionKeysEffect env (lastOccurrence env (childNodes el)) a a1 \<and>
         dataAttributes env (lastOccurrence env (childNodes el))
           (objKeys (getSectionMetadata env el)) section d1 = Done d2 \<and>
         nodeAt d2 section = Some (Element (a1\<lparr>dataset := ds\<rparr>) cs1) \<and>
         dataEffect env (lastOccurrence env (childNodes el))
           (objKeys (getSectionMetadata env el)) ds \<and>
         sectionImages env (lastOccurrence env (childNodes el)) section (d2, p) = Done s3 \<and>
         nodeAt (fst s3) section = Some (Element a3 cs3) \<and>
         pictureEffect env (imageOf (lastOccurrence env (childNodes el)) ''background-image'')
           (imageOf (lastOccurrence env (childNodes el)) ''background-image-mobile'') a3 cs3 \<and>
         blockContentKeys env (lastOccurrence env (childNodes el)) section s3 = Done s4 \<and>
         (\<forall>b \<in> set (blockContents (fst s3) section).
            \<exists>ab csb ab' csb'.
              nodeAt (fst s3) b = Some (Element ab csb) \<and>
              nodeAt (fst s4) b = Some (Element ab' csb') \<and>
              blockEffect env (lastOccurrence env (childNodes el)) ab ab' csb') \<and>
         doc' = removeAt (snd s4) (fst s4)))"
proof (intro conjI allI impI)
  fix pre r post
  assume a: "childNodes el = pre @ r # post \<and> definesKey env k r \<and>
      (\<forall>r' \<in> set post. \<not> definesKey env k r')"
  have "lastOccurrence env (childNodes el) k = Some (rowValue env r)"
    by (rule lastOccurrence_split [OF a [THEN conjunct1] a [THEN conjunct2, THEN conjunct1]
          a [THEN conjunct2, THEN conjunct2]])
  then show "objGet (getSectionMetadata env el) k = Some (rowValue env r)"
    by (simp add: getSectionMetadata_get)
next
  show "length (filter (\<lambda>kv. fst kv = k) (getSectionMetadata env el)) \<le> 1"
    by (rule distinct_keys_once [OF getSectionMetadata_distinct])
next
  show "objGet (getSectionMetadata env el) = lastOccurrence env (childNodes el)"
    by (rule getSectionMetadata_get)
next
  assume h: "nodeAt doc p = Some el \<and> closest doc p ''section'' = Some section"
  show "handleSectionMetadata env doc p =
        (case applyMetadata env (lastOccurrence env (childNodes el))
                (objKeys (getSectionMetadata env el)) section (doc, p) of
           Done s \<Rightarrow> Done (fst s)
         | Threw e s \<Rightarrow> Threw e (fst s))"
    by (rule handleSectionMetadata_apply [OF h [THEN conjunct1] h [THEN conjunct2]])
next
  assume h: "nodeAt doc p = Some el \<and> closest doc p ''section'' = Some section \<and>
    handleSectionMetadata env doc p = Done doc'"
  show "\<exists>a cs a1 cs1 d1 ds d2 a3 cs3 s3 s4.
         nodeAt doc section = Some (Element a cs) \<and>
         sectionKeys env (lastOccurrence env (childNodes el)) section doc = Inr d1 \<and>
         nodeAt d1 section = Some (Element a1 cs1) \<and>
         sectionKeysEffect env (lastOccurrence env (childNodes el)) a a1 \<and>
         dataAttributes env (lastOccurrence env (childNodes el))
           (objKeys (getSectionMetadata env el)) section d1 = Done d2 \<and>
         nodeAt d2 section = Some (Element (a1\<lparr>dataset := ds\<rparr>) cs1) \<and>
         dataEffect env (lastOccurrence env (childNodes el))
           (objKeys (getSectionMetadata env el)) ds \<and>
         sectionImages env (lastOccurrence env (childNodes el)) section (d2, p) = Done s3 \<and>
         nodeAt (fst s3) section = Some (Element a3 cs3) \<and>
         pictureEffect env (imageOf (lastOccurrence env (childNodes el)) ''background-image'')
           (imageOf (lastOccurrence env (childNodes el)) ''background-image-mobile'') a3 cs3 \<and>
         blockContentKeys env (lastOccurrence env (childNodes el)) section s3 = Done s4 \<and>
         (\<forall>b \<in> set (blockContents (fst s3) section).
            \<exists>ab csb ab' csb'.
              nodeAt (fst s3) b = Some (Element ab csb) \<and>
              nodeAt (fst s4) b = Some (Element ab' csb') \<and>
              blockEffect env (lastOccurrence env (childNodes el)) ab ab' csb') \<and>
         doc' = removeAt (snd s4) (fst s4)"
    by (rule handler_effects [OF h [THEN conjunct1] h [THEN conjunct2, THEN conjunct1]
          h [THEN conjunct2, THEN conjunct2]])
qed

text \<open>
  Witness for C5: the example table defines \<^verbatim>\<open>background\<close> first as \<^verbatim>\<open>red\<close> and later as
  \<^verbatim>\<open>Color-Token-Brand\<close>; the later row is kept.  After the handler the section has the classes
  of the style and of the grid, the inline background \<^verbatim>\<open>var(--color-brand)\<close>, the data
  attribute \<^verbatim>\<open>customKey\<close> and the picture, and the \<^verbatim>\<open>block-content\<close> group has the data attribute
  \<^verbatim>\<open>objectFit\<close>.
\<close>

theorem getSectionMetadata_last_wins_witness:
  "definesKey brandEnv ''background'' (metaRow ''Background'' [TextNode ''red'']) \<and>
   definesKey brandEnv ''background'' (metaRow ''background'' [TextNode ''Color-Token-Brand'']) \<and>
   objGet (getSectionMetadata brandEnv exampleTable) ''background'' =
     Some \<lparr>content = elem ''DIV'' [] [TextNode ''Color-Token-Brand''],
           text' = ''color-token-brand''\<rparr> \<and>
   length (filter (\<lambda>kv. fst kv = ''background'') (getSectionMetadata brandEnv exampleTable)) \<le> 1 \<and>
   nodeAt examplePage [0, 2] = Some exampleTable \<and>
   closest examplePage [0, 2] ''section'' = Some [0] \<and>
   handleSectionMetadata brandEnv examplePage [0, 2] = Done examplePageAfter \<and>
   (\<exists>a cs a1 cs1 d1 ds d2 a3 cs3 s3 s4.
      nodeAt examplePage [0] = Some (Element a cs) \<and>
      sectionKeys brandEnv (lastOccurrence brandEnv (childNodes exampleTable)) [0] examplePage =
        Inr d1 \<and>
      nodeAt d1 [0] = Some (Element a1 cs1) \<and>
      sectionKeysEffect brandEnv (lastOccurrence brandEnv (childNodes exampleTable)) a a1 \<and>
      dataAttributes brandEnv (lastOccurrence brandEnv (childNodes exampleTable))
        (objKeys (getSectionMetadata brandEnv exampleTable)) [0] d1 = Done d2 \<and>
      nodeAt d2 [0] = Some (Element (a1\<lparr>dataset := ds\<rparr>) cs1) \<and>
      dataEffect brandEnv (lastOccurrence brandEnv (childNodes exampleTable))
        (objKeys (getSectionMetadata brandEnv exampleTable)) ds \<and>
      sectionImages brandEnv (lastOccurrence brandEnv (childNodes exampleTable)) [0] (d2, [0, 2]) =
        Done s3 \<and>
      nodeAt (fst s3) [0] = Some (Element a3 cs3) \<and>
      pictureEffect brandEnv
        (imageOf (lastOccurrence brandEnv (childNodes exampleTable)) ''background-image'')
        (imageOf (lastOccurrence brandEnv (childNodes exampleTable)) ''background-image-mobile'')
        a3 cs3 \<and>
      blockContentKeys brandEnv (lastOccurrence brandEnv (childNodes exampleTable)) [0] s3 =
        Done s4 \<and>
      (\<forall>b \<in> set (blockContents (fst s3) [0]).
         \<exists>ab csb ab' csb'.
           nodeAt (fst s3) b = Some (Element ab csb) \<and>
           nodeAt (fst s4) b = Some (Element ab' csb') \<and>
           blockEffect brandEnv (lastOccurrence brandEnv (childNodes exampleTable)) ab ab' csb') \<and>
      examplePageAfter = removeAt (snd s4) (fst s4)) \<and>
   sectionClasses (lastOccurrence brandEnv (childNodes exampleTable)) =
     [''highlight'', ''two-words'', ''grid'', ''grid-2''] \<and>
   textOf (lastOccurrence brandEnv (childNodes exampleTable)) ''background'' =
     ''color-token-brand'' \<and>
   textOf (lastOccurrence brandEnv (childNodes exampleTable)) ''custom key'' = ''hello'' \<and>
   textOf (lastOccurrence brandEnv (childNodes exampleTable)) ''object-fit-block'' = ''cover''"
proof -
  note T = getSectionMetadata_last_wins
    [of exampleTable brandEnv "''background''" examplePage "[0, 2]" "[0]" examplePageAfter]
  have rows: "childNodes exampleTable =
      [TextNode '' '', metaRow ''Background'' [TextNode ''red''],
       metaRow '' Style '' [TextNode ''Highlight, Two Words''], metaRow ''grid'' [TextNode ''2''],
       metaRow ''gap'' [TextNode ''0''], metaRow ''Custom Key'' [TextNode '' Hello '']] @
      metaRow ''background'' [TextNode ''Color-Token-Brand''] #
      [metaRow ''background-image''
         [elem ''PICTURE'' [] [imgNode ''https://example.com/media/a.png'']],
       metaRow ''object-fit-block'' [TextNode ''cover'']]"
    by (simp add: exampleTable_def elem_def)
  have last: "definesKey brandEnv ''background''
      (metaRow ''background'' [TextNode ''Color-Token-Brand''])"
    by code_simp
  have first: "definesKey brandEnv ''background'' (metaRow ''Background'' [TextNode ''red''])"
    by code_simp
  have later: "\<forall>r' \<in> set [metaRow ''background-image''
         [elem ''PICTURE'' [] [imgNode ''https://example.com/media/a.png'']],
       metaRow ''object-fit-block'' [TextNode ''cover'']]. \<not> definesKey brandEnv ''background'' r'"
    by code_simp
  have v: "rowValue brandEnv (metaRow ''background'' [TextNode ''Color-Token-Brand'']) =
      \<lparr>content = elem ''DIV'' [] [TextNode ''Color-Token-Brand''], text' = ''color-token-brand''\<rparr>"
    by code_simp
  have "objGet (getSectionMetadata brandEnv exampleTable) ''background'' =
      Some (rowValue brandEnv (metaRow ''background'' [TextNode ''Color-Token-Brand'']))"
    by (rule T [THEN conjunct1, THEN spec, THEN spec, THEN spec, THEN mp,
          OF conjI [OF rows conjI [OF last later]]])
  then have 3: "objGet (getSectionMetadata brandEnv exampleTable) ''background'' =
     Some \<lparr>content = elem ''DIV'' [] [TextNode ''Color-Token-Brand''],
           text' = ''color-token-brand''\<rparr>"
    unfolding v .
  have 4: "length (filter (\<lambda>kv. fst kv = ''background'') (getSectionMetadata brandEnv exampleTable))
      \<le> 1"
    by (rule T [THEN conjunct2, THEN conjunct1])
  have 5: "nodeAt examplePage [0, 2] = Some exampleTable" by code_simp
  have 6: "closest examplePage [0, 2] ''section'' = Some [0]" by code_simp
  have 7: "handleSectionMetadata brandEnv examplePage [0, 2] = Done examplePageAfter"
    by code_simp
  note 8 = T [THEN conjunct2, THEN conjunct2, THEN conjunct2, THEN conjunct2, THEN mp,
      OF conjI [OF 5 conjI [OF 6 7]]]
  have 9: "sectionClasses (lastOccurrence brandEnv (childNodes exampleTable)) =
     [''highlight'', ''two-words'', ''grid'', ''grid-2'']" by code_simp
  have 10: "textOf (lastOccurrence brandEnv (childNodes exampleTable)) ''background'' =
     ''color-token-brand''" by code_simp
  have 11: "textOf (lastOccurrence brandEnv (childNodes exampleTable)) ''custom key'' = ''hello''"
    by code_simp
  have 12: "textOf (lastOccurrence brandEnv (childNodes exampleTable)) ''object-fit-block'' =
     ''cover''" by code_simp
  show ?thesis
    by (rule conjI [OF first conjI [OF last conjI [OF 3 conjI [OF 4 conjI [OF 5 conjI [OF 6
          conjI [OF 7 conjI [OF 8 conjI [OF 9 conjI [OF 10 conjI [OF 11 12]]]]]]]]]]])
qed

text \<open>
  C10.  When no element on the way from the root to \<^verbatim>\<open>el\<close>, \<^verbatim>\<open>el\<close> included, carries the class
  \<^verbatim>\<open>section\<close>, \<^verbatim>\<open>closest\<close> finds nothing and the handler returns the document as it was: no
  class, style or data attribute changes and \<^verbatim>\<open>el\<close> is still in place.  A removal therefore
  happens only when an enclosing section exists.
\<close>

theorem handleSectionMetadata_no_section:
  assumes "\<forall>k \<le> length el. \<forall>n. nodeAt doc (take k el) = Some n \<longrightarrow> \<not> contains n ''section''"
  shows "closest doc el ''section'' = None \<and> handleSectionMetadata env doc el = Done doc"
proof -
  from assms have "\<forall>k \<le> length el. \<not> hasClassAt doc ''section'' (take k el)"
    by (auto simp: hasClassAt_def split: option.splits)
  then have "closest doc el ''section'' = None" by (simp add: closest_None)
  then show ?thesis by (simp add: handleSectionMetadata_def)
qed

text \<open>
  Witness for C10: the example table below a \<^verbatim>\<open>div\<close> without the class \<^verbatim>\<open>section\<close>.
\<close>

theorem handleSectionMetadata_no_section_witness:
  "nodeAt orphanPage [0, 0] = Some exampleTable \<and>
   closest orphanPage [0, 0] ''section'' = None \<and>
   handleSectionMetadata brandEnv orphanPage [0, 0] = Done orphanPage"
proof -
  have c: "closest orphanPage [0, 0] ''section'' = None" by code_simp
  have h: "\<forall>k \<le> length [0, 0 :: nat]. \<forall>n. nodeAt orphanPage (take k [0, 0]) = Some n \<longrightarrow>
             \<not> contains n ''section''"
    using c unfolding closest_None by (auto simp: hasClassAt_def)
  have n: "nodeAt orphanPage [0, 0] = Some exampleTable"
    by (simp add: orphanPage_def elem_def)
  from handleSectionMetadata_no_section [OF h, of brandEnv] n show ?thesis by simp
qed

section \<open>Link Decorator\<close>

text \<open>
  An anchor is an element of the tree; \<^verbatim>\<open>a.href\<close> and \<^verbatim>\<open>a.target\<close> are the reflected properties
  \<^verbatim>\<open>href\<close> and \<^verbatim>\<open>target\<close>.  A \<^verbatim>\<open>URL\<close> object is a record of the components the script reads.
\<close>

record url =
  href :: string
  origin :: string
  hostname :: string
  pathname :: string
  search :: string
  hash :: string

text \<open>
  What the script takes from outside: \<open>parseURL s\<close> is \<^verbatim>\<open>new URL(s)\<close>, \<open>None\<close> when the constructor
  throws its \<^verbatim>\<open>TypeError\<close>; \<open>resolveHref v\<close> is what \<^verbatim>\<open>a.href\<close> reads after \<^verbatim>\<open>a.href = v\<close> (the value
  resolved against the document); \<open>decorateButtons\<close> is the function imported from \<^verbatim>\<open>aem.js\<close>,
  taken to act on the anchor it is given.
\<close>

record platform =
  parseURL :: "string \<Rightarrow> url option"
  resolveHref :: "string \<Rightarrow> string"
  decorateButtons :: "node \<Rightarrow> node"

text \<open>
  The configuration: \<^verbatim>\<open>locales\<close> by its keys in the order of \<^verbatim>\<open>Object.keys\<close>, \<^verbatim>\<open>locale\<close> as
  \<open>currentLocale\<close>, each widget pattern as its single key and the substring it stands for.
  \<^verbatim>\<open>config.log\<close> appends to a log.
\<close>

record localeInfo =
  prefix :: string
  lang :: string

record config =
  hostnames :: "string list"
  locales :: "string list"
  currentLocale :: localeInfo
  widgets :: "(string \<times> string) list"

datatype logEntry = Message string | Exception error

fun setProp :: "string \<Rightarrow> string \<Rightarrow> node \<Rightarrow> node" where
  "setProp name v (Element a cs) = Element (a\<lparr>props := objSet (props a) name v\<rparr>) cs"
| "setProp name v (TextNode t) = TextNode t"

definition getHref :: "node \<Rightarrow> string" where
  "getHref a = getProp a ''href''"

definition setHref :: "platform \<Rightarrow> string \<Rightarrow> node \<Rightarrow> node" where
  "setHref pf v a = setProp ''href'' (resolveHref pf v) a"

text \<open>
  \<^verbatim>\<open>decorateHash(a, url)\<close>: the anchor afterwards with \<^verbatim>\<open>dnt\<close> and \<^verbatim>\<open>dnb\<close> (\<^verbatim>\<open>undefined\<close> counts as
  false where they are tested).  \<^verbatim>\<open>findHash\<close> tests \<^verbatim>\<open>url.hash\<close> and edits \<^verbatim>\<open>a.href\<close>.
\<close>

definition findHash :: "platform \<Rightarrow> string \<Rightarrow> string \<Rightarrow> node \<Rightarrow> node \<times> bool" where
  "findHash pf h name a =
     (let found = includesStr h name in
      (if found then setHref pf (replace (getHref a) name []) a else a, found))"

definition decorateHash :: "platform \<Rightarrow> node \<Rightarrow> url \<Rightarrow> node \<times> bool \<times> bool" where
  "decorateHash pf a u =
     (if hash u = [] \<or> hash u = ''#'' then (a, False, False)
      else (case findHash pf (hash u) ''#_blank'' a of
              (a1, blank) \<Rightarrow>
                (let a2 = (if blank then setProp ''target'' ''_blank'' a1 else a1) in
                 case findHash pf (hash u) ''#_dnt'' a2 of
                   (a3, dnt) \<Rightarrow>
                     (case findHash pf (hash u) ''#_dnb'' a3 of
                        (a4, dnb) \<Rightarrow> (a4, dnt, dnb)))))"

text \<open>
  \<^verbatim>\<open>localizeUrl({ config, url })\<close>: \<^verbatim>\<open>null\<close>, a new \<^verbatim>\<open>URL\<close>, or the exception of the constructor.
\<close>

definition alreadyLocalized :: "config \<Rightarrow> url \<Rightarrow> bool" where
  "alreadyLocalized cfg u =
     (startsWith (pathname u) (prefix (currentLocale cfg) @ ''/'') \<or>
      list_ex (\<lambda>key. key \<noteq> [] \<and> startsWith (pathname u) (key @ ''/'')) (locales cfg))"

text \<open>
  The wording of the specification: a path is prefixed by a locale when it is the locale's
  prefix or goes on below it; \<open>localePrefixed\<close>, by the current or another configured locale
  (the root locale, whose prefix is empty, apart).  \<open>bareLocale\<close>: the path is a locale prefix
  and nothing more.
\<close>

definition prefixedBy :: "string \<Rightarrow> string \<Rightarrow> bool" where
  "prefixedBy key path = (path = key \<or> startsWith path (key @ ''/''))"

definition localePrefixed :: "config \<Rightarrow> url \<Rightarrow> bool" where
  "localePrefixed cfg u =
     (prefixedBy (prefix (currentLocale cfg)) (pathname u) \<or>
      list_ex (\<lambda>key. key \<noteq> [] \<and> prefixedBy key (pathname u)) (locales cfg))"

definition bareLocale :: "config \<Rightarrow> url \<Rightarrow> bool" where
  "bareLocale cfg u =
     (pathname u = prefix (currentLocale cfg) \<or>
      list_ex (\<lambda>key. key \<noteq> [] \<and> pathname u = key) (locales cfg))"

definition localizedString :: "config \<Rightarrow> url \<Rightarrow> string" where
  "localizedString cfg u = origin u @ prefix (currentLocale cfg) @ pathname u @ search u @ hash u"

definition localizeUrl :: "platform \<Rightarrow> config \<Rightarrow> url \<Rightarrow> error + url option" where
  "localizeUrl pf cfg u =
     (if prefix (currentLocale cfg) = [] then Inr None
      else if startsWith (pathname u) (prefix (currentLocale cfg) @ ''/'') then Inr None
      else if list_ex (\<lambda>key. key \<noteq> [] \<and> startsWith (pathname u) (key @ ''/'')) (locales cfg)
      then Inr None
      else (case parseURL pf (localizedString cfg u) of
              None \<Rightarrow> Inl TypeError
            | Some l \<Rightarrow> Inr (Some l)))"

text \<open>
  The first part of the \<^verbatim>\<open>try\<close> block of \<^verbatim>\<open>decorateLink\<close>, for an \<^verbatim>\<open>href\<close> that parsed to \<open>u\<close>: host
  names, hash directives, localization and \<^verbatim>\<open>decorateButtons\<close>.  The result is the anchor
  with \<^verbatim>\<open>dnb\<close>, or the exception with the anchor as it is when the exception is caught.
\<close>

definition hostMatch :: "config \<Rightarrow> url \<Rightarrow> bool" where
  "hostMatch cfg u = list_ex (\<lambda>host. endsWith (hostname u) host) (hostnames cfg)"

definition afterHash :: "platform \<Rightarrow> config \<Rightarrow> node \<Rightarrow> url \<Rightarrow> node \<times> bool \<times> bool" where
  "afterHash pf cfg a u =
     decorateHash pf
       (if hostMatch cfg u then setHref pf (replace (getHref a) (origin u) []) a else a) u"

definition beforeWidgets :: "platform \<Rightarrow> config \<Rightarrow> node \<Rightarrow> url \<Rightarrow> (error \<times> node) + (node \<times> bool)"
  where
  "beforeWidgets pf cfg a u =
     (case afterHash pf cfg a u of
        (a1, dnt, dnb) \<Rightarrow>
          (if \<not> dnt
           then (case localizeUrl pf cfg u of
                   Inl e \<Rightarrow> Inl (e, a1)
                 | Inr None \<Rightarrow> Inr (decorateButtons pf a1, dnb)
                 | Inr (Some localized) \<Rightarrow>
                     Inr (decorateButtons pf (setHref pf (href localized) a1), dnb))
           else Inr (decorateButtons pf a1, dnb)))"

text \<open>
  \<^verbatim>\<open>config.widgets.some(...)\<close> on the \<^verbatim>\<open>href\<close> read before the loop: the first pattern whose
  substring occurs adds its key and \<^verbatim>\<open>auto-block\<close> and ends the loop.
\<close>

fun widgetsSome :: "string \<Rightarrow> (string \<times> string) list \<Rightarrow> node \<Rightarrow> error + (node \<times> bool)" where
  "widgetsSome h [] a = Inr (a, False)"
| "widgetsSome h ((key, pat) # rest) a =
     (if \<not> includesStr h pat then widgetsSome h rest a
      else (case classListAdd [key, ''auto-block''] a of
              Inl e \<Rightarrow> Inl e
            | Inr a' \<Rightarrow> Inr (a', True)))"

definition caught :: "error \<Rightarrow> logEntry list" where
  "caught ex = [Message ''Could not decorate link'', Exception ex]"

text \<open>
  \<^verbatim>\<open>decorateLink(config, a)\<close>: the anchor afterwards, whether the anchor is returned (not
  \<^verbatim>\<open>null\<close>), and what was logged.
\<close>

definition decorateLink :: "platform \<Rightarrow> config \<Rightarrow> node \<Rightarrow> node \<times> bool \<times> logEntry list" where
  "decorateLink pf cfg a =
     (case parseURL pf (getHref a) of
        None \<Rightarrow> (a, False, caught TypeError)
      | Some u \<Rightarrow>
          (case beforeWidgets pf cfg a u of
             Inl (e, a1) \<Rightarrow> (a1, False, caught e)
           | Inr (a2, dnb) \<Rightarrow>
               (if \<not> dnb
                then (case widgetsSome (getHref a2) (widgets cfg) a2 of
                        Inl e \<Rightarrow> (a2, False, caught e)
                      | Inr (a3, found) \<Rightarrow> (a3, found, []))
                else (a2, False, []))))"

text \<open>
  \<^verbatim>\<open>decorateLinks(el)\<close>, with the configuration as an argument: the anchors below \<^verbatim>\<open>el\<close> in
  document order after their decoration, the accumulated array and the log.
\<close>

definition anchorsOf :: "node \<Rightarrow> node list" where
  "anchorsOf el = filter (\<lambda>n. nodeTag n = ''A'') (descendants el)"

definition linkStep ::
    "platform \<Rightarrow> config \<Rightarrow> node list \<times> node list \<times> logEntry list \<Rightarrow> node \<Rightarrow>
     node list \<times> node list \<times> logEntry list" where
  "linkStep pf cfg s a =
     (case s of
        (seen, acc, logged) \<Rightarrow>
          (case decorateLink pf cfg a of
             (decorated, returned, l) \<Rightarrow>
               (seen @ [decorated], if returned then acc @ [decorated] else acc, logged @ l)))"

definition decorateLinks ::
    "platform \<Rightarrow> config \<Rightarrow> node \<Rightarrow> node list \<times> node list \<times> logEntry list" where
  "decorateLinks pf cfg el = foldl (linkStep pf cfg) ([], [], []) (anchorsOf el)"

subsection \<open>An example platform and configurations\<close>

text \<open>
  A reader for the URLs of the examples: lower-case \<^verbatim>\<open>http\<close> and \<^verbatim>\<open>https\<close> URLs with a host and
  without port, credentials, dot segments or characters that the URL standard would
  escape, and \<^verbatim>\<open>mailto:\<close> URLs (opaque origin, serialized as \<^verbatim>\<open>null\<close>).  On these it gives
  the components the \<^verbatim>\<open>URL\<close> constructor gives; every other string is rejected.  The example
  document lives at \<^verbatim>\<open>https://www.example.org\<close>.
\<close>

definition urlParts :: "string \<Rightarrow> string \<times> string \<times> string" where
  "urlParts s =
     (let path = takeWhile (\<lambda>c. c \<noteq> CHR ''?'' \<and> c \<noteq> CHR ''#'') s;
          rest = dropWhile (\<lambda>c. c \<noteq> CHR ''?'' \<and> c \<noteq> CHR ''#'') s
      in (path, takeWhile (\<lambda>c. c \<noteq> CHR ''#'') rest, dropWhile (\<lambda>c. c \<noteq> CHR ''#'') rest))"

definition hierarchical :: "string \<Rightarrow> string \<Rightarrow> url option" where
  "hierarchical scheme s =
     (let host = takeWhile (\<lambda>c. c \<noteq> CHR ''/'' \<and> c \<noteq> CHR ''?'' \<and> c \<noteq> CHR ''#'') s;
          rest = dropWhile (\<lambda>c. c \<noteq> CHR ''/'' \<and> c \<noteq> CHR ''?'' \<and> c \<noteq> CHR ''#'') s
      in if host = [] \<or> CHR '':'' \<in> set host \<or> CHR ''@'' \<in> set host then None
         else (case urlParts rest of
                 (path, query, fragment) \<Rightarrow>
                   Some \<lparr>href = scheme @ ''//'' @ host @ (if path = [] then ''/'' else path) @
                                query @ fragment,
                         origin = scheme @ ''//'' @ host,
                         hostname = host,
                         pathname = (if path = [] then ''/'' else path),
                         search = (if query = ''?'' then [] else query),
                         hash = (if fragment = ''#'' then [] else fragment)\<rparr>))"

definition simpleURL :: "string \<Rightarrow> url option" where
  "simpleURL s =
     (if startsWith s ''https://'' then hierarchical ''https:'' (drop 8 s)
      else if startsWith s ''http://'' then hierarchical ''http:'' (drop 7 s)
      else if startsWith s ''mailto:''
      then (case urlParts (drop 7 s) of
              (path, query, fragment) \<Rightarrow>
                Some \<lparr>href = ''mailto:'' @ path @ query @ fragment,
                      origin = ''null'', hostname = [], pathname = path,
                      search = (if query = ''?'' then [] else query),
                      hash = (if fragment = ''#'' then [] else fragment)\<rparr>)
      else None)"

definition exampleResolve :: "string \<Rightarrow> string" where
  "exampleResolve v =
     (case simpleURL v of
        Some u \<Rightarrow> href u
      | None \<Rightarrow>
          if startsWith v ''/''
          then (case simpleURL (''https://www.example.org'' @ v) of
                  Some u \<Rightarrow> href u
                | None \<Rightarrow> v)
          else v)"

definition examplePlatform :: platform where
  "examplePlatform =
     \<lparr>parseURL = simpleURL, resolveHref = exampleResolve, decorateButtons = (\<lambda>a. a)\<rparr>"

text \<open>The configuration of the repository, and the same with German as current locale.\<close>

definition rootConfig :: config where
  "rootConfig =
     \<lparr>hostnames = [''localhost'', ''helms-charity.hlx.page''],
      locales = [[]],
      currentLocale = \<lparr>prefix = [], lang = ''en''\<rparr>,
      widgets = [(''fragment'', ''/fragments/''), (''youtube'', ''https://www.youtube'')]\<rparr>"

definition deConfig :: config where
  "deConfig =
     \<lparr>hostnames = [''localhost'', ''helms-charity.hlx.page''],
      locales = [[], ''/de'', ''/fr''],
      currentLocale = \<lparr>prefix = ''/de'', lang = ''de''\<rparr>,
      widgets = [(''fragment'', ''/fragments/''), (''youtube'', ''https://www.youtube'')]\<rparr>"

text \<open>The German configuration with a widget key that holds a space.\<close>

definition spacedConfig :: config where
  "spacedConfig = deConfig\<lparr>widgets := [(''you tube'', ''https://www.youtube'')]\<rparr>"

text \<open>An anchor with the given \<^verbatim>\<open>href\<close>, \<^verbatim>\<open>target\<close> and class attribute.\<close>

definition anchor :: "string \<Rightarrow> string \<Rightarrow> string \<Rightarrow> node" where
  "anchor h t c =
     Element \<lparr>tagName = ''A'', className = c, styleBackground = [], dataset = [],
              props = (if t = [] then [(''href'', h)] else [(''href'', h), (''target'', t)])\<rparr>
       [TextNode ''link'']"

text \<open>The URLs of the examples as the constructor reads them, and an element with four anchors.\<close>

definition productsUrl :: url where
  "productsUrl =
     \<lparr>href = ''https://example.com/products'', origin = ''https://example.com'',
      hostname = ''example.com'', pathname = ''/products'', search = [], hash = []\<rparr>"

definition localizedProductsUrl :: url where
  "localizedProductsUrl =
     \<lparr>href = ''https://example.com/de/products'', origin = ''https://example.com'',
      hostname = ''example.com'', pathname = ''/de/products'', search = [], hash = []\<rparr>"

definition bareUrl :: url where
  "bareUrl =
     \<lparr>href = ''https://example.com/de'', origin = ''https://example.com'',
      hostname = ''example.com'', pathname = ''/de'', search = [], hash = []\<rparr>"

definition mailUrl :: url where
  "mailUrl =
     \<lparr>href = ''mailto:info@example.com'', origin = ''null'', hostname = [],
      pathname = ''info@example.com'', search = [], hash = []\<rparr>"

definition shareUrl :: url where
  "shareUrl =
     \<lparr>href = ''mailto:?body=https://www.youtube.com/watch'', origin = ''null'', hostname = [],
      pathname = [], search = ''?body=https://www.youtube.com/watch'', hash = []\<rparr>"

definition videoUrl :: url where
  "videoUrl =
     \<lparr>href = ''https://www.youtube.com/fragments/foo'', origin = ''https://www.youtube.com'',
      hostname = ''www.youtube.com'', pathname = ''/fragments/foo'', search = [], hash = []\<rparr>"

definition linkList :: node where
  "linkList = elem ''DIV'' []
     [elem ''P'' [] [anchor ''https://www.youtube.com/watch'' [] []],
      anchor [] [] [],
      elem ''P'' [] [anchor ''https://example.com/x'' [] [],
                     anchor ''https://example.com/fragments/y'' [] []]]"


subsection \<open>Steps of the decoration\<close>

lemma foldl_linkStep:
  "foldl (linkStep pf cfg) (seen, acc, logged) as =
     (seen @ map (\<lambda>a. fst (decorateLink pf cfg a)) as,
      acc @ map fst (filter (\<lambda>r. fst (snd r)) (map (decorateLink pf cfg) as)),
      logged @ concat (map (\<lambda>a. snd (snd (decorateLink pf cfg a))) as))"
proof (induction as arbitrary: seen acc logged)
  case Nil
  show ?case by simp
next
  case (Cons a as)
  obtain d r l where dl: "decorateLink pf cfg a = (d, r, l)" by (cases "decorateLink pf cfg a") auto
  have step: "linkStep pf cfg (seen, acc, logged) a =
      (seen @ [d], if r then acc @ [d] else acc, logged @ l)"
    by (simp add: linkStep_def dl)
  show ?case by (simp add: step dl Cons.IH)
qed

lemma decorateLinks_eq:
  "decorateLinks pf cfg el =
     (map (\<lambda>a. fst (decorateLink pf cfg a)) (anchorsOf el),
      map fst (filter (\<lambda>r. fst (snd r)) (map (decorateLink pf cfg) (anchorsOf el))),
      concat (map (\<lambda>a. snd (snd (decorateLink pf cfg a))) (anchorsOf el)))"
  using foldl_linkStep [of pf cfg "[]" "[]" "[]" "anchorsOf el"] by (simp add: decorateLinks_def)

lemma widgetsSome_first:
  assumes "ws = pre @ (key, pat) # post"
    and "\<forall>kp \<in> set pre. \<not> includesStr h (snd kp)"
    and "includesStr h pat"
  shows "widgetsSome h ws a = (case classListAdd [key, ''auto-block''] a of
                                 Inl e \<Rightarrow> Inl e | Inr a' \<Rightarrow> Inr (a', True))"
  using assms
proof (induction pre arbitrary: ws)
  case Nil
  then show ?case by simp
next
  case (Cons x pre)
  obtain k p where x: "x = (k, p)" by (cases x) auto
  from Cons.prems have "\<not> includesStr h p" by (simp add: x)
  moreover from Cons.prems have "widgetsSome h (pre @ (key, pat) # post) a =
      (case classListAdd [key, ''auto-block''] a of Inl e \<Rightarrow> Inl e | Inr a' \<Rightarrow> Inr (a', True))"
    by (intro Cons.IH) simp_all
  ultimately show ?case using Cons.prems(1) by (simp add: x)
qed

lemma widgetsSome_none:
  "\<forall>kp \<in> set ws. \<not> includesStr h (snd kp) \<Longrightarrow> widgetsSome h ws a = Inr (a, False)"
  by (induction ws) auto

lemma auto_block_valid: "validToken ''auto-block''"
  by (simp add: validToken_def isAsciiWhitespace_def)

lemma classListAdd_valid:
  "validToken key \<Longrightarrow> classListAdd [key, ''auto-block''] a = Inr (addTokens [key, ''auto-block''] a)"
proof -
  assume "validToken key"
  then have "validateTokens [key, ''auto-block''] = None"
    unfolding validateTokens_valid using auto_block_valid by simp
  then show ?thesis by (simp add: classListAdd_def)
qed

lemma decorateHash_dnb:
  "decorateHash pf a u = (a', dnt, dnb) \<Longrightarrow>
   dnt = includesStr (hash u) ''#_dnt'' \<and> dnb = includesStr (hash u) ''#_dnb''"
proof -
  have e: "\<not> includesStr [] ''#_dnt''" "\<not> includesStr [] ''#_dnb''"
    "\<not> includesStr ''#'' ''#_dnt''" "\<not> includesStr ''#'' ''#_dnb''"
    by (simp_all add: startsWith_def)
  assume "decorateHash pf a u = (a', dnt, dnb)"
  then show ?thesis using e
    by (auto simp: decorateHash_def findHash_def Let_def split: if_splits prod.splits)
qed

lemma beforeWidgets_dnb:
  "beforeWidgets pf cfg a u = Inr (a2, dnb) \<Longrightarrow> dnb = includesStr (hash u) ''#_dnb''"
proof -
  assume b: "beforeWidgets pf cfg a u = Inr (a2, dnb)"
  obtain a1 dnt dnb' where ah: "afterHash pf cfg a u = (a1, dnt, dnb')"
    by (cases "afterHash pf cfg a u") auto
  then have "dnb' = includesStr (hash u) ''#_dnb''"
    unfolding afterHash_def by (auto dest: decorateHash_dnb)
  moreover from b ah have "dnb = dnb'"
    by (auto simp: beforeWidgets_def split: if_splits sum.splits option.splits)
  ultimately show ?thesis by simp
qed

lemma getProp_setProp:
  "isElement a \<Longrightarrow> getProp (setProp name v a) name = v"
proof (cases a)
  case (Element x cs)
  have "map_of (objSet m name v) name = Some v" for m :: "(string \<times> string) list"
    by (induction m) auto
  then show ?thesis by (simp add: Element getProp_def)
qed simp

lemma getHref_setHref: "isElement a \<Longrightarrow> getHref (setHref pf v a) = resolveHref pf v"
  by (simp add: getHref_def setHref_def getProp_setProp)

lemma alreadyLocalized_localizeUrl:
  "prefix (currentLocale cfg) \<noteq> [] \<Longrightarrow>
   localizeUrl pf cfg u =
     (if alreadyLocalized cfg u then Inr None
      else (case parseURL pf (localizedString cfg u) of
              None \<Rightarrow> Inl TypeError | Some l \<Rightarrow> Inr (Some l)))"
  by (auto simp: localizeUrl_def alreadyLocalized_def)


lemma localePrefixed_iff:
  "localePrefixed cfg u \<longleftrightarrow> alreadyLocalized cfg u \<or> bareLocale cfg u"
  unfolding localePrefixed_def alreadyLocalized_def bareLocale_def prefixedBy_def list_ex_iff
  by blast

subsection \<open>Claims about the Link Decorator\<close>

text \<open>
  C6 as stated fails at the \<^verbatim>\<open>href\<close> \<^verbatim>\<open>mailto:info@example.com\<close>: it parses, the locale is \<^verbatim>\<open>/de\<close>,
  the path \<^verbatim>\<open>info@example.com\<close> is prefixed by no locale and there is no \<^verbatim>\<open>#_dnt\<close>; the rebuilt
  string \<^verbatim>\<open>null/deinfo@example.com\<close> is rejected by the constructor, so the \<^verbatim>\<open>href\<close> is not
  rewritten.  It also fails at the path \<^verbatim>\<open>/de\<close>, which is the locale prefix itself: the test
  of the code asks for \<^verbatim>\<open>/de/\<close> at the start, and the \<^verbatim>\<open>href\<close> becomes \<^verbatim>\<open>/de/de\<close>.
\<close>

theorem decorateLink_mailto_counterexample:
  "parseURL examplePlatform (getHref (anchor ''mailto:info@example.com'' [] [])) = Some mailUrl \<and>
   prefix (currentLocale deConfig) = ''/de'' \<and>
   \<not> localePrefixed deConfig mailUrl \<and>
   \<not> includesStr (hash mailUrl) ''#_dnt'' \<and>
   localizedString deConfig mailUrl = ''null/deinfo@example.com'' \<and>
   parseURL examplePlatform ''null/deinfo@example.com'' = None \<and>
   decorateLink examplePlatform deConfig (anchor ''mailto:info@example.com'' [] []) =
     (anchor ''mailto:info@example.com'' [] [], False,
      [Message ''Could not decorate link'', Exception TypeError]) \<and>
   parseURL examplePlatform (getHref (anchor ''https://example.com/de'' [] [])) = Some bareUrl \<and>
   localePrefixed deConfig bareUrl \<and>
   decorateLink examplePlatform deConfig (anchor ''https://example.com/de'' [] []) =
     (anchor ''https://example.com/de/de'' [] [], False, [])"
  by code_simp

text \<open>
  C6 (as amended).  For an anchor whose \<^verbatim>\<open>href\<close> parses to \<open>u\<close>, a non-root current locale, and
  the anchor \<open>a1\<close> with the flags \<open>dnt\<close> and \<open>dnb\<close> after the hash step: \<open>dnt\<close> holds exactly when
  the fragment contains \<^verbatim>\<open>#_dnt\<close>.  When \<open>dnt\<close> holds, or the path is prefixed by the current or
  another configured locale and is more than the bare prefix, localization leaves the
  anchor as the hash step left it.  When \<open>dnt\<close> does not hold and the path is prefixed by no
  configured locale, the string handed to the \<^verbatim>\<open>URL\<close> constructor has the locale prefix
  between the origin and the path; when the constructor accepts it, the \<^verbatim>\<open>href\<close> is set to the
  new URL, and when the constructor rejects it, its exception ends the decoration of the
  link: the anchor is as the hash step left it, \<^verbatim>\<open>null\<close> is returned and the exception is
  logged.  Nothing is said about a path that is a bare locale prefix.
\<close>

theorem decorateLink_localize:
  "parseURL pf (getHref a) = Some u \<and> prefix (currentLocale cfg) \<noteq> [] \<and>
   afterHash pf cfg a u = (a1, dnt, dnb) \<longrightarrow>
     dnt = includesStr (hash u) ''#_dnt'' \<and>
     (dnt \<or> (localePrefixed cfg u \<and> \<not> bareLocale cfg u) \<longrightarrow>
        beforeWidgets pf cfg a u = Inr (decorateButtons pf a1, dnb)) \<and>
     (\<not> dnt \<and> \<not> localePrefixed cfg u \<longrightarrow>
        (\<exists>rest. localizedString cfg u =
                   origin u @ prefix (currentLocale cfg) @ pathname u @ rest) \<and>
        (\<forall>l. parseURL pf (localizedString cfg u) = Some l \<longrightarrow>
           beforeWidgets pf cfg a u = Inr (decorateButtons pf (setHref pf (href l) a1), dnb) \<and>
           (isElement a1 \<longrightarrow> getHref (setHref pf (href l) a1) = resolveHref pf (href l))) \<and>
        (parseURL pf (localizedString cfg u) = None \<longrightarrow>
           beforeWidgets pf cfg a u = Inl (TypeError, a1) \<and>
           decorateLink pf cfg a =
             (a1, False, [Message ''Could not decorate link'', Exception TypeError])))"
proof (intro impI)
  assume h: "parseURL pf (getHref a) = Some u \<and> prefix (currentLocale cfg) \<noteq> [] \<and>
   afterHash pf cfg a u = (a1, dnt, dnb)"
  then have nr: "prefix (currentLocale cfg) \<noteq> []"
    and ah: "afterHash pf cfg a u = (a1, dnt, dnb)" by simp_all
  note loc = alreadyLocalized_localizeUrl [OF nr, of pf u]
  have 1: "dnt = includesStr (hash u) ''#_dnt''"
    using ah unfolding afterHash_def by (auto dest: decorateHash_dnb)
  have 2: "dnt \<or> (localePrefixed cfg u \<and> \<not> bareLocale cfg u) \<longrightarrow>
        beforeWidgets pf cfg a u = Inr (decorateButtons pf a1, dnb)"
    by (auto simp: beforeWidgets_def ah loc localePrefixed_iff)
  have 3: "\<exists>rest. localizedString cfg u =
                   origin u @ prefix (currentLocale cfg) @ pathname u @ rest"
    by (simp add: localizedString_def)
  have 4: "\<forall>l. \<not> dnt \<and> \<not> localePrefixed cfg u \<and>
             parseURL pf (localizedString cfg u) = Some l \<longrightarrow>
           beforeWidgets pf cfg a u = Inr (decorateButtons pf (setHref pf (href l) a1), dnb) \<and>
           (isElement a1 \<longrightarrow> getHref (setHref pf (href l) a1) = resolveHref pf (href l))"
    by (auto simp: beforeWidgets_def ah loc getHref_setHref localePrefixed_iff)
  have 5: "\<not> dnt \<and> \<not> localePrefixed cfg u \<and> parseURL pf (localizedString cfg u) = None \<longrightarrow>
           beforeWidgets pf cfg a u = Inl (TypeError, a1)"
    by (auto simp: beforeWidgets_def ah loc localePrefixed_iff)
  have 6: "beforeWidgets pf cfg a u = Inl (TypeError, a1) \<longrightarrow>
           decorateLink pf cfg a =
             (a1, False, [Message ''Could not decorate link'', Exception TypeError])"
    using h by (simp add: decorateLink_def caught_def)
  from 1 2 3 4 5 6 show "dnt = includesStr (hash u) ''#_dnt'' \<and>
     (dnt \<or> (localePrefixed cfg u \<and> \<not> bareLocale cfg u) \<longrightarrow>
        beforeWidgets pf cfg a u = Inr (decorateButtons pf a1, dnb)) \<and>
     (\<not> dnt \<and> \<not> localePrefixed cfg u \<longrightarrow>
        (\<exists>rest. localizedString cfg u =
                   origin u @ prefix (currentLocale cfg) @ pathname u @ rest) \<and>
        (\<forall>l. parseURL pf (localizedString cfg u) = Some l \<longrightarrow>
           beforeWidgets pf cfg a u = Inr (decorateButtons pf (setHref pf (href l) a1), dnb) \<and>
           (isElement a1 \<longrightarrow> getHref (setHref pf (href l) a1) = resolveHref pf (href l))) \<and>
        (parseURL pf (localizedString cfg u) = None \<longrightarrow>
           beforeWidgets pf cfg a u = Inl (TypeError, a1) \<and>
           decorateLink pf cfg a =
             (a1, False, [Message ''Could not decorate link'', Exception TypeError])))"
    by blast
qed

text \<open>
  Witness for C6: with the prefix \<^verbatim>\<open>/de\<close>, the path \<^verbatim>\<open>/products\<close> becomes \<^verbatim>\<open>/de/products\<close>, the
  path \<^verbatim>\<open>/de/products\<close> stays, and with \<^verbatim>\<open>#_dnt\<close> the directive is stripped and no prefix is
  applied.
\<close>

theorem decorateLink_localize_witness:
  "decorateLink examplePlatform deConfig (anchor ''https://example.com/products'' [] []) =
     (anchor ''https://example.com/de/products'' [] [], False, []) \<and>
   parseURL examplePlatform ''https://example.com/de/products'' = Some localizedProductsUrl \<and>
   pathname localizedProductsUrl = ''/de/products'' \<and>
   decorateLink examplePlatform deConfig (anchor ''https://example.com/de/products'' [] []) =
     (anchor ''https://example.com/de/products'' [] [], False, []) \<and>
   decorateLink examplePlatform deConfig (anchor ''https://example.com/products#_dnt'' [] []) =
     (anchor ''https://example.com/products'' [] [], False, [])"
proof -
  let ?a = "anchor ''https://example.com/products'' [] []"
  let ?b = "anchor ''https://example.com/de/products'' [] []"
  have p: "parseURL examplePlatform (getHref ?a) = Some productsUrl" by code_simp
  have nr: "prefix (currentLocale deConfig) \<noteq> []" by code_simp
  have ah: "afterHash examplePlatform deConfig ?a productsUrl = (?a, False, False)" by code_simp
  have nl: "\<not> localePrefixed deConfig productsUrl" by code_simp
  have l: "parseURL examplePlatform (localizedString deConfig productsUrl) = Some localizedProductsUrl"
    by code_simp
  have l': "parseURL examplePlatform ''https://example.com/de/products'' = Some localizedProductsUrl"
    by code_simp
  have sh: "setHref examplePlatform (href localizedProductsUrl) ?a = ?b" by code_simp
  have db: "decorateButtons examplePlatform = (\<lambda>a. a)" by (simp add: examplePlatform_def)
  from decorateLink_localize [of examplePlatform ?a productsUrl deConfig ?a False False] p nr ah nl l
  have bw: "beforeWidgets examplePlatform deConfig ?a productsUrl = Inr (?b, False)"
    by (simp add: sh db)
  have ws: "widgetsSome (getHref ?b) (widgets deConfig) ?b = Inr (?b, False)" by code_simp
  have 1: "decorateLink examplePlatform deConfig ?a = (?b, False, [])"
    by (simp add: decorateLink_def p bw ws)
  have pb: "parseURL examplePlatform (getHref ?b) = Some localizedProductsUrl" by code_simp
  have ahb: "afterHash examplePlatform deConfig ?b localizedProductsUrl = (?b, False, False)"
    by code_simp
  have lp: "localePrefixed deConfig localizedProductsUrl" by code_simp
  have nb: "\<not> bareLocale deConfig localizedProductsUrl" by code_simp
  from decorateLink_localize [of examplePlatform ?b localizedProductsUrl deConfig ?b False False]
    pb nr ahb lp nb
  have bwb: "beforeWidgets examplePlatform deConfig ?b localizedProductsUrl = Inr (?b, False)"
    by (simp add: db)
  have 2: "decorateLink examplePlatform deConfig ?b = (?b, False, [])"
    by (simp add: decorateLink_def pb bwb ws)
  have 3: "decorateLink examplePlatform deConfig (anchor ''https://example.com/products#_dnt'' [] []) =
     (anchor ''https://example.com/products'' [] [], False, [])" by code_simp
  have 4: "pathname localizedProductsUrl = ''/de/products''" by (simp add: localizedProductsUrl_def)
  from 1 2 3 4 l' show ?thesis by simp
qed


text \<open>
  C7, at two inputs where the code leaves a detected directive in the \<^verbatim>\<open>href\<close>.  With the
  locale \<^verbatim>\<open>/de\<close>, \<^verbatim>\<open>#_blank\<close> is stripped by the hash step and comes back with the localized
  URL, which is built from the URL parsed before the hash step.  With the root locale, a
  fragment \<^verbatim>\<open>#_blank#_blank\<close> loses only its first occurrence.
\<close>

theorem decorateLink_directive_restored:
  "decorateLink examplePlatform deConfig (anchor ''https://example.com/products#_blank'' [] []) =
     (anchor ''https://example.com/de/products#_blank'' ''_blank'' [], False, []) \<and>
   includesStr ''https://example.com/de/products#_blank'' ''#_blank'' \<and>
   decorateLink examplePlatform rootConfig
       (anchor ''https://example.com/products#_blank#_blank'' [] []) =
     (anchor ''https://example.com/products#_blank'' ''_blank'' [], False, []) \<and>
   includesStr ''https://example.com/products#_blank'' ''#_blank''"
  by code_simp


text \<open>
  C8 as stated fails at three inputs.  Under the German locale the anchor
  \<^verbatim>\<open>mailto:?body=https://www.youtube.com/watch\<close> carries no \<^verbatim>\<open>#_dnb\<close> and its \<^verbatim>\<open>href\<close> contains the
  substring of the pattern \<^verbatim>\<open>youtube\<close>; the localization step throws before the widget
  step, so no class is added, \<^verbatim>\<open>null\<close> is returned and the exception is logged.  With a widget
  key that holds a space, \<^verbatim>\<open>classList.add\<close> throws on the matching anchor: again no class and
  \<^verbatim>\<open>null\<close>.  And with the configuration of the repository, the \<^verbatim>\<open>href\<close>
  \<^verbatim>\<open>https://www.youtube:x/\<close> contains that substring but does not parse (the port is no
  number): no class and \<^verbatim>\<open>null\<close>.
\<close>

theorem decorateLink_widgets_counterexample:
  "parseURL examplePlatform (getHref (anchor ''mailto:?body=https://www.youtube.com/watch'' [] []))
     = Some shareUrl \<and>
   \<not> includesStr (hash shareUrl) ''#_dnb'' \<and>
   includesStr (getHref (anchor ''mailto:?body=https://www.youtube.com/watch'' [] []))
     ''https://www.youtube'' \<and>
   decorateLink examplePlatform deConfig
       (anchor ''mailto:?body=https://www.youtube.com/watch'' [] []) =
     (anchor ''mailto:?body=https://www.youtube.com/watch'' [] [], False,
      [Message ''Could not decorate link'', Exception TypeError]) \<and>
   classList (anchor ''mailto:?body=https://www.youtube.com/watch'' [] []) = [] \<and>
   decorateLink examplePlatform spacedConfig (anchor ''https://www.youtube.com/de/watch'' [] []) =
     (anchor ''https://www.youtube.com/de/watch'' [] [], False,
      [Message ''Could not decorate link'', Exception InvalidCharacterError]) \<and>
   includesStr (getHref (anchor ''https://www.youtube:x/'' [] [])) ''https://www.youtube'' \<and>
   decorateLink examplePlatform rootConfig (anchor ''https://www.youtube:x/'' [] []) =
     (anchor ''https://www.youtube:x/'' [] [], False,
      [Message ''Could not decorate link'', Exception TypeError])"
  by code_simp

text \<open>
  C8 (as amended).  For an anchor whose \<^verbatim>\<open>href\<close> parses to \<open>u\<close>, whose fragment has no \<^verbatim>\<open>#_dnb\<close>,
  that reaches the widget step as \<open>a2\<close> (no exception before), with widget keys that are
  valid class tokens: when a pattern is the first of the configured list whose substring
  occurs in the \<^verbatim>\<open>href\<close> of \<open>a2\<close>, the result is \<open>a2\<close> with that pattern's key and \<^verbatim>\<open>auto-block\<close>
  added to its class list, and the anchor is returned; when no pattern's substring occurs,
  \<open>a2\<close> is the result, with its classes, and \<^verbatim>\<open>null\<close> is returned.  The array of
  \<^verbatim>\<open>decorateLinks\<close> holds the returned anchors in document order.
\<close>

theorem decorateLink_widgets:
  "(parseURL pf (getHref a) = Some u \<and> beforeWidgets pf cfg a u = Inr (a2, dnb) \<and>
    \<not> includesStr (hash u) ''#_dnb'' \<and> (\<forall>kp \<in> set (widgets cfg). validToken (fst kp)) \<longrightarrow>
      (\<forall>pre key pat post.
         widgets cfg = pre @ (key, pat) # post \<and>
         (\<forall>kp \<in> set pre. \<not> includesStr (getHref a2) (snd kp)) \<and>
         includesStr (getHref a2) pat \<longrightarrow>
           decorateLink pf cfg a = (addTokens [key, ''auto-block''] a2, True, []) \<and>
           (isElement a2 \<longrightarrow>
              classList (addTokens [key, ''auto-block''] a2) =
                orderedSet (classList a2 @ [key, ''auto-block'']))) \<and>
      ((\<forall>kp \<in> set (widgets cfg). \<not> includesStr (getHref a2) (snd kp)) \<longrightarrow>
         decorateLink pf cfg a = (a2, False, []))) \<and>
   fst (snd (decorateLinks pf cfg el)) =
     map fst (filter (\<lambda>r. fst (snd r)) (map (decorateLink pf cfg) (anchorsOf el)))"
proof (intro conjI impI allI)
  fix pre key pat post
  assume h: "parseURL pf (getHref a) = Some u \<and> beforeWidgets pf cfg a u = Inr (a2, dnb) \<and>
    \<not> includesStr (hash u) ''#_dnb'' \<and> (\<forall>kp \<in> set (widgets cfg). validToken (fst kp))"
  assume w: "widgets cfg = pre @ (key, pat) # post \<and>
         (\<forall>kp \<in> set pre. \<not> includesStr (getHref a2) (snd kp)) \<and>
         includesStr (getHref a2) pat"
  from h have bw: "beforeWidgets pf cfg a u = Inr (a2, dnb)" by simp
  from beforeWidgets_dnb [OF bw] h have nd: "\<not> dnb" by simp
  from h w have "validToken key" by auto
  then have add: "classListAdd [key, ''auto-block''] a2 = Inr (addTokens [key, ''auto-block''] a2)"
    by (rule classListAdd_valid)
  have "widgetsSome (getHref a2) (widgets cfg) a2 =
      (case classListAdd [key, ''auto-block''] a2 of Inl e \<Rightarrow> Inl e | Inr a' \<Rightarrow> Inr (a', True))"
    by (rule widgetsSome_first [OF w [THEN conjunct1] w [THEN conjunct2, THEN conjunct1]
          w [THEN conjunct2, THEN conjunct2]])
  with add h nd show "decorateLink pf cfg a = (addTokens [key, ''auto-block''] a2, True, [])"
    by (simp add: decorateLink_def)
  {
    assume el: "isElement a2"
    from \<open>validToken key\<close> auto_block_valid
    have "\<forall>t \<in> set [key, ''auto-block'']. validToken t" by simp
    from classList_addTokens [OF el this]
    show "classList (addTokens [key, ''auto-block''] a2) =
                orderedSet (classList a2 @ [key, ''auto-block''])" .
  }
next
  assume h: "parseURL pf (getHref a) = Some u \<and> beforeWidgets pf cfg a u = Inr (a2, dnb) \<and>
    \<not> includesStr (hash u) ''#_dnb'' \<and> (\<forall>kp \<in> set (widgets cfg). validToken (fst kp))"
  assume n: "\<forall>kp \<in> set (widgets cfg). \<not> includesStr (getHref a2) (snd kp)"
  from h have bw: "beforeWidgets pf cfg a u = Inr (a2, dnb)" by simp
  from beforeWidgets_dnb [OF bw] h have nd: "\<not> dnb" by simp
  from widgetsSome_none [OF n] h nd show "decorateLink pf cfg a = (a2, False, [])"
    by (simp add: decorateLink_def)
next
  show "fst (snd (decorateLinks pf cfg el)) =
     map fst (filter (\<lambda>r. fst (snd r)) (map (decorateLink pf cfg) (anchorsOf el)))"
    by (simp add: decorateLinks_eq)
qed

text \<open>
  Witness for C8: an \<^verbatim>\<open>href\<close> in which both patterns occur gets the key of the first,
  \<^verbatim>\<open>fragment\<close>; an \<^verbatim>\<open>href\<close> in which none occurs keeps its classes; of the four anchors of the
  example element the first and the fourth are returned, in that order.
\<close>

theorem decorateLink_widgets_witness:
  "decorateLink examplePlatform rootConfig
       (anchor ''https://www.youtube.com/fragments/foo'' [] ''button'') =
     (anchor ''https://www.youtube.com/fragments/foo'' [] ''button fragment auto-block'', True, []) \<and>
   decorateLink examplePlatform rootConfig (anchor ''https://example.com/products'' [] ''button'') =
     (anchor ''https://example.com/products'' [] ''button'', False, []) \<and>
   fst (snd (decorateLinks examplePlatform rootConfig linkList)) =
     [anchor ''https://www.youtube.com/watch'' [] ''youtube auto-block'',
      anchor ''https://example.com/fragments/y'' [] ''fragment auto-block'']"
proof -
  let ?a = "anchor ''https://www.youtube.com/fragments/foo'' [] ''button''"
  let ?b = "anchor ''https://example.com/products'' [] ''button''"
  have pa: "parseURL examplePlatform (getHref ?a) = Some videoUrl" by code_simp
  have ba: "beforeWidgets examplePlatform rootConfig ?a videoUrl = Inr (?a, False)" by code_simp
  have na: "\<not> includesStr (hash videoUrl) ''#_dnb''" by code_simp
  have v: "\<forall>kp \<in> set (widgets rootConfig). validToken (fst kp)" by code_simp
  have w: "widgets rootConfig = [] @ (''fragment'', ''/fragments/'') # [(''youtube'', ''https://www.youtube'')]"
    by (simp add: rootConfig_def)
  have both: "includesStr (getHref ?a) ''/fragments/''" "includesStr (getHref ?a) ''https://www.youtube''"
    by code_simp+
  have add: "addTokens [''fragment'', ''auto-block''] ?a =
      anchor ''https://www.youtube.com/fragments/foo'' [] ''button fragment auto-block''"
    by code_simp
  note T = decorateLink_widgets [of examplePlatform ?a videoUrl rootConfig ?a False linkList]
  have prem: "widgets rootConfig =
        [] @ (''fragment'', ''/fragments/'') # [(''youtube'', ''https://www.youtube'')] \<and>
      (\<forall>kp \<in> set []. \<not> includesStr (getHref ?a) (snd kp)) \<and>
      includesStr (getHref ?a) ''/fragments/''"
    using w both(1) by simp
  have "decorateLink examplePlatform rootConfig ?a =
      (addTokens [''fragment'', ''auto-block''] ?a, True, []) \<and>
      (isElement ?a \<longrightarrow> classList (addTokens [''fragment'', ''auto-block''] ?a) =
                orderedSet (classList ?a @ [''fragment'', ''auto-block'']))"
    by (rule T [THEN conjunct1, THEN mp, OF conjI [OF pa conjI [OF ba conjI [OF na v]]],
          THEN conjunct1, THEN spec, THEN spec, THEN spec, THEN spec, THEN mp, OF prem])
  then have 1: "decorateLink examplePlatform rootConfig ?a =
     (anchor ''https://www.youtube.com/fragments/foo'' [] ''button fragment auto-block'', True, [])"
    by (simp add: add)
  have 2: "decorateLink examplePlatform rootConfig ?b = (?b, False, [])" by code_simp
  have 3: "map fst (filter (\<lambda>r. fst (snd r))
       (map (decorateLink examplePlatform rootConfig) (anchorsOf linkList))) =
     [anchor ''https://www.youtube.com/watch'' [] ''youtube auto-block'',
      anchor ''https://example.com/fragments/y'' [] ''fragment auto-block'']" by code_simp
  from T [THEN conjunct2] 1 2 3 show ?thesis by simp
qed

text \<open>
  C9.  When the \<^verbatim>\<open>URL\<close> constructor rejects the \<^verbatim>\<open>href\<close> of an anchor, \<^verbatim>\<open>decorateLink\<close> returns
  \<^verbatim>\<open>null\<close>, logs the message and the exception, and leaves the anchor as it was; the pass
  of \<^verbatim>\<open>decorateLinks\<close> goes on with the anchor unchanged and not in its array.
\<close>

theorem decorateLink_unparsable:
  assumes "parseURL pf (getHref a) = None"
  shows "decorateLink pf cfg a =
           (a, False, [Message ''Could not decorate link'', Exception TypeError]) \<and>
         linkStep pf cfg (seen, acc, logged) a =
           (seen @ [a], acc, logged @ [Message ''Could not decorate link'', Exception TypeError])"
  using assms by (simp add: decorateLink_def linkStep_def caught_def)


text \<open>
  Witness for C9: an anchor without \<^verbatim>\<open>href\<close> attribute (\<^verbatim>\<open>a.href\<close> is the empty string), alone
  and as the second of four anchors.
\<close>

theorem decorateLink_unparsable_witness:
  "parseURL examplePlatform (getHref (anchor [] [] ''button'')) = None \<and>
   decorateLink examplePlatform rootConfig (anchor [] [] ''button'') =
     (anchor [] [] ''button'', False,
      [Message ''Could not decorate link'', Exception TypeError]) \<and>
   fst (snd (decorateLinks examplePlatform rootConfig linkList)) =
     [anchor ''https://www.youtube.com/watch'' [] ''youtube auto-block'',
      anchor ''https://example.com/fragments/y'' [] ''fragment auto-block'']"
proof -
  have p: "parseURL examplePlatform (getHref (anchor [] [] ''button'')) = None" by code_simp
  have l: "fst (snd (decorateLinks examplePlatform rootConfig linkList)) =
     [anchor ''https://www.youtube.com/watch'' [] ''youtube auto-block'',
      anchor ''https://example.com/fragments/y'' [] ''fragment auto-block'']" by code_simp
  from decorateLink_unparsable [OF p, of rootConfig] p l show ?thesis by simp
qed


end
